theory Spec2Isabelle
  imports Main "HOL-Library.Word" "HOL-Library.Multiset" "HOL-Library.Sublist"
begin

section \<open>The sealing pipeline poller (provider/lpseal/poller.go)\<close>

text \<open>
  Go's \<open>int64\<close> columns, task ids and chain epochs are 64-bit words: \<open>+\<close> wraps around as
  Go's does, and the order of the source's comparisons is the signed one (\<open>word_sle\<close>,
  \<open>word_sless\<close>).
\<close>

type_synonym int64 = "64 word"

datatype stage = pollerSDR | pollerTrees | pollerPrecommitMsg | pollerPoRep | pollerCommitMsg

definition seedEpochConfidence :: int64 where
  "seedEpochConfidence = 3"

text \<open>
  Errors are values. \<open>Fault\<close> is an error handed over by a collaborator (the data store, the
  chain API, the address library); \<open>Errorf m e\<close> is \<open>xerrors.Errorf("m: %w", e)\<close>;
  \<open>ExpectedOneRow n\<close> is \<open>xerrors.Errorf("expected to update 1 row, updated %d", n)\<close>.
\<close>

datatype error = Fault string | Errorf string error | ExpectedOneRow nat

datatype log_entry = Errorw string "error option"

subsection \<open>The record read by a tick, and the table row it is scanned from\<close>

record pollTask =
  SpID :: int64
  SectorNumber :: int64
  TaskSDR :: "int64 option"
  AfterSDR :: bool
  TaskTreeD :: "int64 option"
  AfterTreeD :: bool
  TaskTreeC :: "int64 option"
  AfterTreeC :: bool
  TaskTreeR :: "int64 option"
  AfterTreeR :: bool
  TaskPrecommitMsg :: "int64 option"
  AfterPrecommitMsg :: bool
  AfterPrecommitMsgSuccess :: bool
  SeedEpoch :: "int64 option"
  TaskPoRep :: "int64 option"
  PoRepProof :: "8 word list"
  AfterPoRep :: bool
  TaskCommitMsg :: "int64 option"
  AfterCommitMsg :: bool
  AfterCommitMsgSuccess :: bool
  Failed :: bool
  FailedReason :: string

text \<open>
  A row of \<open>sectors_sdr_pipeline\<close>, with the columns the poller's statements name. A
  nullable column is an \<open>option\<close>.
\<close>

record pipeline_row =
  sp_id :: int64
  sector_number :: int64
  task_id_sdr :: "int64 option"
  after_sdr :: bool
  task_id_tree_d :: "int64 option"
  after_tree_d :: bool
  task_id_tree_c :: "int64 option"
  after_tree_c :: bool
  task_id_tree_r :: "int64 option"
  after_tree_r :: bool
  task_id_precommit_msg :: "int64 option"
  after_precommit_msg :: bool
  after_precommit_msg_success :: bool
  seed_epoch :: "int64 option"
  precommit_msg_cid :: "string option"
  precommit_msg_tsk :: "string option"
  task_id_porep :: "int64 option"
  porep_proof :: "8 word list"
  after_porep :: bool
  task_id_commit_msg :: "int64 option"
  after_commit_msg :: bool
  after_commit_msg_success :: bool
  commit_msg_cid :: "string option"
  commit_msg_tsk :: "string option"
  failed :: bool
  failed_reason :: string

text \<open>A row of \<open>message_waits\<close>, the execution outcome of a submitted message.\<close>

record message_wait =
  signed_message_cid :: string
  executed_tsk_cid :: string
  executed_tsk_epoch :: "int64 option"
  executed_msg_cid :: string
  executed_rcpt_exitcode :: int64
  executed_rcpt_gas_used :: int64

record execResult =
  ExecutedTskCID :: string
  ExecutedTskEpoch :: int64
  ExecutedMsgCID :: string
  ExecutedRcptExitCode :: int64
  ExecutedRcptGasUsed :: int64

text \<open>The column list of the \<open>SELECT\<close> in \<open>poll\<close>, scanned into a \<open>pollTask\<close>.\<close>

definition scan_pollTask :: "pipeline_row \<Rightarrow> pollTask" where
  "scan_pollTask r =
     \<lparr> SpID = sp_id r, SectorNumber = sector_number r,
       TaskSDR = task_id_sdr r, AfterSDR = after_sdr r,
       TaskTreeD = task_id_tree_d r, AfterTreeD = after_tree_d r,
       TaskTreeC = task_id_tree_c r, AfterTreeC = after_tree_c r,
       TaskTreeR = task_id_tree_r r, AfterTreeR = after_tree_r r,
       TaskPrecommitMsg = task_id_precommit_msg r, AfterPrecommitMsg = after_precommit_msg r,
       AfterPrecommitMsgSuccess = after_precommit_msg_success r, SeedEpoch = seed_epoch r,
       TaskPoRep = task_id_porep r, PoRepProof = porep_proof r, AfterPoRep = after_porep r,
       TaskCommitMsg = task_id_commit_msg r, AfterCommitMsg = after_commit_msg r,
       AfterCommitMsgSuccess = after_commit_msg_success r,
       Failed = failed r, FailedReason = failed_reason r \<rparr>"

definition scan_execResult :: "message_wait \<Rightarrow> execResult" where
  "scan_execResult w =
     \<lparr> ExecutedTskCID = executed_tsk_cid w,
       ExecutedTskEpoch = (case executed_tsk_epoch w of Some e \<Rightarrow> e | None \<Rightarrow> 0),
       ExecutedMsgCID = executed_msg_cid w,
       ExecutedRcptExitCode = executed_rcpt_exitcode w,
       ExecutedRcptGasUsed = executed_rcpt_gas_used w \<rparr>"

subsection \<open>The collaborators of a tick and the state it changes\<close>

text \<open>
  What a tick reads from outside and does not change. \<open>pollers\<close> tells for each stage
  whether its promise has been set (\<open>IsSet\<close>). \<open>ChainHead\<close> answers the n-th read of the
  chain head (the chain may advance between two reads); only the height of the tipset is
  used by the poller. \<open>StateSectorPreCommitInfo\<close> gives the \<open>PreCommitEpoch\<close> of the
  precommit info, \<open>None\<close> for a nil pointer; \<open>StateSectorGetInfo\<close> tells whether the sector
  info is non-nil. \<open>db_fault\<close> tells whether the n-th statement sent to the data store fails.
\<close>

record env =
  pollers :: "stage \<Rightarrow> bool"
  ChainHead :: "nat \<Rightarrow> error + int64"
  NewIDAddress :: "int64 \<Rightarrow> error + int64"
  StateSectorPreCommitInfo :: "int64 \<Rightarrow> int64 \<Rightarrow> error + int64 option"
  StateSectorGetInfo :: "int64 \<Rightarrow> int64 \<Rightarrow> error + bool"
  GetPreCommitChallengeDelay :: int64
  message_waits :: "message_wait list"
  db_fault :: "nat \<Rightarrow> error option"

text \<open>
  What a tick changes: the table, the counters of statements sent and of chain heads read,
  the task ids handed out by the task engine and the registrations it kept, the
  invocations of the stages' \<open>AddTaskFunc\<close> (the claim attempts, as stage, provider and
  sector), and the log.
\<close>

record pstate =
  table :: "pipeline_row list"
  db_ops :: nat
  head_reads :: nat
  next_id :: int64
  added :: "(int64 \<times> stage) list"
  attempts :: "(stage \<times> int64 \<times> int64) list"
  logged :: "log_entry list"

text \<open>
  A call that waits on a promise that is not set does not come back within the tick:
  \<open>Blocked\<close>. Everything else is \<open>Done\<close>.
\<close>

datatype 'a outcome = Done 'a | Blocked

subsection \<open>The data store\<close>

text \<open>
  \<open>UPDATE sectors_sdr_pipeline SET st WHERE wh\<close>: the number of rows affected, and the
  table with every row that satisfies \<open>wh\<close> changed by \<open>st\<close>.
\<close>

definition Exec :: "env \<Rightarrow> (pipeline_row \<Rightarrow> bool) \<Rightarrow> (pipeline_row \<Rightarrow> pipeline_row) \<Rightarrow>
    pstate \<Rightarrow> (error + nat) \<times> pstate" where
  "Exec e wh st s =
     (case db_fault e (db_ops s) of
        Some err \<Rightarrow> (Inl err, s\<lparr>db_ops := Suc (db_ops s)\<rparr>)
      | None \<Rightarrow>
          (Inr (length (filter wh (table s))),
           s\<lparr>table := map (\<lambda>r. if wh r then st r else r) (table s),
             db_ops := Suc (db_ops s)\<rparr>))"

text \<open>\<open>SELECT ... FROM sectors_sdr_pipeline WHERE wh\<close>, scanned into \<open>pollTask\<close>s.\<close>

definition Select_tasks :: "env \<Rightarrow> (pipeline_row \<Rightarrow> bool) \<Rightarrow> pstate \<Rightarrow>
    (error + pollTask list) \<times> pstate" where
  "Select_tasks e wh s =
     (case db_fault e (db_ops s) of
        Some err \<Rightarrow> (Inl err, s\<lparr>db_ops := Suc (db_ops s)\<rparr>)
      | None \<Rightarrow> (Inr (map scan_pollTask (filter wh (table s))), s\<lparr>db_ops := Suc (db_ops s)\<rparr>))"

text \<open>
  The rows of \<open>SELECT ... FROM sectors_sdr_pipeline JOIN message_waits ON
  sectors_sdr_pipeline.col = message_waits.signed_message_cid WHERE sp_id = sp AND
  sector_number = sn AND executed_tsk_epoch is not null\<close>. A null \<open>col\<close> joins with
  nothing.
\<close>

definition joined_waits :: "env \<Rightarrow> (pipeline_row \<Rightarrow> string option) \<Rightarrow> int64 \<Rightarrow> int64 \<Rightarrow>
    pipeline_row list \<Rightarrow> execResult list" where
  "joined_waits e col sp sn tbl =
     [scan_execResult w.
        r \<leftarrow> tbl, sp_id r = sp \<and> sector_number r = sn,
        w \<leftarrow> message_waits e,
        col r = Some (signed_message_cid w) \<and> executed_tsk_epoch w \<noteq> None]"

definition Select_waits :: "env \<Rightarrow> (pipeline_row \<Rightarrow> string option) \<Rightarrow> int64 \<Rightarrow> int64 \<Rightarrow>
    pstate \<Rightarrow> (error + execResult list) \<times> pstate" where
  "Select_waits e col sp sn s =
     (case db_fault e (db_ops s) of
        Some err \<Rightarrow> (Inl err, s\<lparr>db_ops := Suc (db_ops s)\<rparr>)
      | None \<Rightarrow> (Inr (joined_waits e col sp sn (table s)), s\<lparr>db_ops := Suc (db_ops s)\<rparr>))"

subsection \<open>The promise of a stage and the task engine's \<open>AddTaskFunc\<close>\<close>

text \<open>
  The promise library and the task engine are not among the sources. The specification
  describes the deferred-registration handle of a stage as a two-phase contract:
  \<open>isReady\<close>, and, once ready, \<open>invoke(claimFn)\<close>, where \<open>claimFn(newTaskID)\<close> returns
  \<open>(shouldPersist, error)\<close>.
\<close>

text \<open>
  Modelled from the spec: \<open>IsSet\<close> of the promise of a stage (the promise library is
  missing), the check that does not block.
\<close>

definition IsSet :: "env \<Rightarrow> stage \<Rightarrow> bool" where
  "IsSet e st = pollers e st"

text \<open>
  Modelled from the spec: the \<open>AddTaskFunc\<close> that the promise of a stage holds (the task
  engine is missing). Invoked with a claim function, it obtains a new task id and runs the
  claim function on it inside a transaction; if the claim function returns
  \<open>shouldCommit = false\<close> or an error, the registration and what the claim function wrote
  are rolled back (and the error is logged), otherwise both are kept. The statements sent
  stay counted, and the invocation is recorded in \<open>attempts\<close>.
\<close>

definition AddTaskFunc :: "stage \<Rightarrow> pollTask \<Rightarrow>
    (int64 \<Rightarrow> pstate \<Rightarrow> (bool \<times> error option) \<times> pstate) \<Rightarrow> pstate \<Rightarrow> pstate" where
  "AddTaskFunc st task extra s =
     (let tid = next_id s;
          s0 = s\<lparr>next_id := tid + 1,
                 attempts := attempts s @ [(st, SpID task, SectorNumber task)]\<rparr>
      in case extra tid s0 of
           ((shouldCommit, seriousError), s1) \<Rightarrow>
             if shouldCommit \<and> seriousError = None
             then s1\<lparr>added := added s1 @ [(tid, st)]\<rparr>
             else s0\<lparr>db_ops := db_ops s1,
                     logged := logged s0 @ [Errorw ''Could not add task. AddTasFunc failed'' seriousError]\<rparr>)"

text \<open>
  Modelled from the spec: \<open>Val\<close> of the promise of a stage (the promise library is
  missing). It gives the handle once the promise is set; on a promise that is not set it
  waits, which is why the specification asks for a check that does not block before it.
\<close>

definition Val :: "env \<Rightarrow> stage \<Rightarrow> pollTask \<Rightarrow>
    ((int64 \<Rightarrow> pstate \<Rightarrow> (bool \<times> error option) \<times> pstate) \<Rightarrow> pstate \<Rightarrow> pstate) outcome" where
  "Val e st task = (if pollers e st then Done (AddTaskFunc st task) else Blocked)"

subsection \<open>The claims of the five stages\<close>

text \<open>The function literal passed to the handle in \<open>pollStartSDR\<close>.\<close>

definition pollStartSDR_claim :: "env \<Rightarrow> pollTask \<Rightarrow> int64 \<Rightarrow> pstate \<Rightarrow>
    (bool \<times> error option) \<times> pstate" where
  "pollStartSDR_claim e task tid tx =
     (case Exec e
             (\<lambda>r. sp_id r = SpID task \<and> sector_number r = SectorNumber task \<and> task_id_sdr r = None)
             (\<lambda>r. r\<lparr>task_id_sdr := Some tid\<rparr>) tx of
        (Inl err, tx') \<Rightarrow> ((False, Some (Errorf ''update sectors_sdr_pipeline'' err)), tx')
      | (Inr n, tx') \<Rightarrow>
          if n \<noteq> 1 then ((False, Some (ExpectedOneRow n)), tx')
          else ((True, None), tx'))"

text \<open>The condition of \<open>pollStartSDR\<close>.\<close>

definition readySDR :: "env \<Rightarrow> pollTask \<Rightarrow> bool" where
  "readySDR e task \<longleftrightarrow> TaskSDR task = None \<and> IsSet e pollerSDR"

definition pollStartSDR :: "env \<Rightarrow> pollTask \<Rightarrow> pstate \<Rightarrow> pstate outcome" where
  "pollStartSDR e task s =
     (if readySDR e task
      then (case Val e pollerSDR task of
              Blocked \<Rightarrow> Blocked
            | Done addTask \<Rightarrow> Done (addTask (pollStartSDR_claim e task) s))
      else Done s)"

text \<open>The function literal passed to the handle in \<open>pollStartSDRTrees\<close>.\<close>

definition pollStartSDRTrees_claim :: "env \<Rightarrow> pollTask \<Rightarrow> int64 \<Rightarrow> pstate \<Rightarrow>
    (bool \<times> error option) \<times> pstate" where
  "pollStartSDRTrees_claim e task tid tx =
     (case Exec e
             (\<lambda>r. sp_id r = SpID task \<and> sector_number r = SectorNumber task \<and> after_sdr r = True
                  \<and> task_id_tree_d r = None \<and> task_id_tree_c r = None \<and> task_id_tree_r r = None)
             (\<lambda>r. r\<lparr>task_id_tree_d := Some tid, task_id_tree_c := Some tid,
                    task_id_tree_r := Some tid\<rparr>) tx of
        (Inl err, tx') \<Rightarrow> ((False, Some (Errorf ''update sectors_sdr_pipeline'' err)), tx')
      | (Inr n, tx') \<Rightarrow>
          if n \<noteq> 1 then ((False, Some (ExpectedOneRow n)), tx')
          else ((True, None), tx'))"

text \<open>The condition of \<open>pollStartSDRTrees\<close>.\<close>

definition readySDRTrees :: "env \<Rightarrow> pollTask \<Rightarrow> bool" where
  "readySDRTrees e task \<longleftrightarrow>
     TaskTreeD task = None \<and> TaskTreeC task = None \<and> TaskTreeR task = None
     \<and> IsSet e pollerTrees \<and> AfterSDR task"

definition pollStartSDRTrees :: "env \<Rightarrow> pollTask \<Rightarrow> pstate \<Rightarrow> pstate outcome" where
  "pollStartSDRTrees e task s =
     (if readySDRTrees e task
      then (case Val e pollerTrees task of
              Blocked \<Rightarrow> Blocked
            | Done addTask \<Rightarrow> Done (addTask (pollStartSDRTrees_claim e task) s))
      else Done s)"

text \<open>The function literal passed to the handle in \<open>pollStartPrecommitMsg\<close>.\<close>

definition pollStartPrecommitMsg_claim :: "env \<Rightarrow> pollTask \<Rightarrow> int64 \<Rightarrow> pstate \<Rightarrow>
    (bool \<times> error option) \<times> pstate" where
  "pollStartPrecommitMsg_claim e task tid tx =
     (case Exec e
             (\<lambda>r. sp_id r = SpID task \<and> sector_number r = SectorNumber task
                  \<and> task_id_precommit_msg r = None \<and> after_tree_r r = True \<and> after_tree_d r = True)
             (\<lambda>r. r\<lparr>task_id_precommit_msg := Some tid\<rparr>) tx of
        (Inl err, tx') \<Rightarrow> ((False, Some (Errorf ''update sectors_sdr_pipeline'' err)), tx')
      | (Inr n, tx') \<Rightarrow>
          if n \<noteq> 1 then ((False, Some (ExpectedOneRow n)), tx')
          else ((True, None), tx'))"

text \<open>
  The condition of \<open>pollStartPrecommitMsg\<close>. This stage takes the value of its promise
  without asking \<open>IsSet\<close> first.
\<close>

definition readyPrecommitMsg :: "pollTask \<Rightarrow> bool" where
  "readyPrecommitMsg task \<longleftrightarrow> TaskPrecommitMsg task = None \<and> AfterTreeR task \<and> AfterTreeD task"

definition pollStartPrecommitMsg :: "env \<Rightarrow> pollTask \<Rightarrow> pstate \<Rightarrow> pstate outcome" where
  "pollStartPrecommitMsg e task s =
     (if readyPrecommitMsg task
      then (case Val e pollerPrecommitMsg task of
              Blocked \<Rightarrow> Blocked
            | Done addTask \<Rightarrow> Done (addTask (pollStartPrecommitMsg_claim e task) s))
      else Done s)"

text \<open>The function literal passed to the handle in \<open>pollStartPoRep\<close>.\<close>

definition pollStartPoRep_claim :: "env \<Rightarrow> pollTask \<Rightarrow> int64 \<Rightarrow> pstate \<Rightarrow>
    (bool \<times> error option) \<times> pstate" where
  "pollStartPoRep_claim e task tid tx =
     (case Exec e
             (\<lambda>r. sp_id r = SpID task \<and> sector_number r = SectorNumber task \<and> task_id_porep r = None)
             (\<lambda>r. r\<lparr>task_id_porep := Some tid\<rparr>) tx of
        (Inl err, tx') \<Rightarrow> ((False, Some (Errorf ''update sectors_sdr_pipeline'' err)), tx')
      | (Inr n, tx') \<Rightarrow>
          if n \<noteq> 1 then ((False, Some (ExpectedOneRow n)), tx')
          else ((True, None), tx'))"

text \<open>
  The condition of \<open>pollStartPoRep\<close>; \<open>ts\<close> is the height of the tipset read for this
  record. The sum \<open>*task.SeedEpoch+seedEpochConfidence\<close> is an \<open>int64\<close> sum.
\<close>

definition readyPoRep :: "env \<Rightarrow> pollTask \<Rightarrow> int64 \<Rightarrow> bool" where
  "readyPoRep e task ts \<longleftrightarrow>
     IsSet e pollerPoRep \<and> AfterPrecommitMsgSuccess task
     \<and> (case SeedEpoch task of
          None \<Rightarrow> False
        | Some seed \<Rightarrow> TaskPoRep task = None \<and> seed + seedEpochConfidence \<le>s ts)"

definition pollStartPoRep :: "env \<Rightarrow> pollTask \<Rightarrow> int64 \<Rightarrow> pstate \<Rightarrow> pstate outcome" where
  "pollStartPoRep e task ts s =
     (if readyPoRep e task ts
      then (case Val e pollerPoRep task of
              Blocked \<Rightarrow> Blocked
            | Done addTask \<Rightarrow> Done (addTask (pollStartPoRep_claim e task) s))
      else Done s)"

text \<open>The function literal passed to the handle in \<open>pollStartCommitMsg\<close>.\<close>

definition pollStartCommitMsg_claim :: "env \<Rightarrow> pollTask \<Rightarrow> int64 \<Rightarrow> pstate \<Rightarrow>
    (bool \<times> error option) \<times> pstate" where
  "pollStartCommitMsg_claim e task tid tx =
     (case Exec e
             (\<lambda>r. sp_id r = SpID task \<and> sector_number r = SectorNumber task
                  \<and> task_id_commit_msg r = None)
             (\<lambda>r. r\<lparr>task_id_commit_msg := Some tid\<rparr>) tx of
        (Inl err, tx') \<Rightarrow> ((False, Some (Errorf ''update sectors_sdr_pipeline'' err)), tx')
      | (Inr n, tx') \<Rightarrow>
          if n \<noteq> 1 then ((False, Some (ExpectedOneRow n)), tx')
          else ((True, None), tx'))"

text \<open>The condition of \<open>pollStartCommitMsg\<close>.\<close>

definition readyCommitMsg :: "env \<Rightarrow> pollTask \<Rightarrow> bool" where
  "readyCommitMsg e task \<longleftrightarrow>
     AfterPoRep task \<and> length (PoRepProof task) > 0 \<and> TaskCommitMsg task = None
     \<and> IsSet e pollerCommitMsg"

definition pollStartCommitMsg :: "env \<Rightarrow> pollTask \<Rightarrow> pstate \<Rightarrow> pstate outcome" where
  "pollStartCommitMsg e task s =
     (if readyCommitMsg e task
      then (case Val e pollerCommitMsg task of
              Blocked \<Rightarrow> Blocked
            | Done addTask \<Rightarrow> Done (addTask (pollStartCommitMsg_claim e task) s))
      else Done s)"

subsection \<open>The landing checks of the two messages\<close>

definition pollPrecommitMsgLanded :: "env \<Rightarrow> pollTask \<Rightarrow> pstate \<Rightarrow> error option \<times> pstate" where
  "pollPrecommitMsgLanded e task s =
     (if TaskPrecommitMsg task \<noteq> None \<and> \<not> AfterPrecommitMsgSuccess task
      then
        (let (res, s1) = Select_waits e precommit_msg_cid (SpID task) (SectorNumber task) s;
             (execResult, s2) =
               (case res of
                  Inl err \<Rightarrow> ([], s1\<lparr>logged := logged s1 @ [Errorw ''failed to query message_waits'' (Some err)]\<rparr>)
                | Inr rows \<Rightarrow> (rows, s1))
         in if length execResult > 0
            then (case NewIDAddress e (SpID task) of
                    Inl err \<Rightarrow> (Some err, s2)
                  | Inr maddr \<Rightarrow>
                     (case StateSectorPreCommitInfo e maddr (SectorNumber task) of
                        Inl err \<Rightarrow> (Some (Errorf ''get precommit info'' err), s2)
                      | Inr None \<Rightarrow> (None, s2)
                      | Inr (Some preCommitEpoch) \<Rightarrow>
                         (let randHeight = preCommitEpoch + GetPreCommitChallengeDelay e
                          in case Exec e
                                    (\<lambda>r. sp_id r = SpID task \<and> sector_number r = SectorNumber task
                                         \<and> seed_epoch r = None)
                                    (\<lambda>r. r\<lparr>seed_epoch := Some randHeight,
                                           precommit_msg_tsk := Some (ExecutedTskCID (hd execResult)),
                                           after_precommit_msg_success := True\<rparr>) s2 of
                               (Inl err, s3) \<Rightarrow> (Some (Errorf ''update sectors_sdr_pipeline'' err), s3)
                             | (Inr n, s3) \<Rightarrow> (None, s3))))
            else (None, s2))
      else (None, s))"

definition pollCommitMsgLanded :: "env \<Rightarrow> pollTask \<Rightarrow> pstate \<Rightarrow> error option \<times> pstate" where
  "pollCommitMsgLanded e task s =
     (if AfterCommitMsg task \<and> \<not> AfterCommitMsgSuccess task \<and> IsSet e pollerCommitMsg
      then
        (let (res, s1) = Select_waits e commit_msg_cid (SpID task) (SectorNumber task) s;
             (execResult, s2) =
               (case res of
                  Inl err \<Rightarrow> ([], s1\<lparr>logged := logged s1 @ [Errorw ''failed to query message_waits'' (Some err)]\<rparr>)
                | Inr rows \<Rightarrow> (rows, s1))
         in if length execResult > 0
            then (case NewIDAddress e (SpID task) of
                    Inl err \<Rightarrow> (Some err, s2)
                  | Inr maddr \<Rightarrow>
                     (case StateSectorGetInfo e maddr (SectorNumber task) of
                        Inl err \<Rightarrow> (Some (Errorf ''get sector info'' err), s2)
                      | Inr False \<Rightarrow>
                          (None, s2\<lparr>logged := logged s2 @
                             [Errorw ''todo handle missing sector info (not found after cron)'' None]\<rparr>)
                      | Inr True \<Rightarrow>
                         (case Exec e
                                 (\<lambda>r. sp_id r = SpID task \<and> sector_number r = SectorNumber task
                                      \<and> after_commit_msg_success r = False)
                                 (\<lambda>r. r\<lparr>after_commit_msg_success := True,
                                        commit_msg_tsk := Some (ExecutedTskCID (hd execResult))\<rparr>) s2 of
                            (Inl err, s3) \<Rightarrow> (Some (Errorf ''update sectors_sdr_pipeline'' err), s3)
                          | (Inr n, s3) \<Rightarrow> (None, s3))))
            else (None, s2))
      else (None, s))"

definition mustPoll :: "error option \<times> pstate \<Rightarrow> pstate" where
  "mustPoll r =
     (case r of
        (None, s) \<Rightarrow> s
      | (Some err, s) \<Rightarrow> s\<lparr>logged := logged s @ [Errorw ''poller operation failed'' (Some err)]\<rparr>)"

subsection \<open>One tick\<close>

text \<open>Sequencing of calls that may wait: a call after one that waits is never made.\<close>

fun and_then :: "'a outcome \<Rightarrow> ('a \<Rightarrow> 'b outcome) \<Rightarrow> 'b outcome" where
  "and_then Blocked f = Blocked"
| "and_then (Done x) f = f x"

text \<open>The calls made for one record that is not failed, in the order of the source.\<close>

definition poll_task :: "env \<Rightarrow> pollTask \<Rightarrow> int64 \<Rightarrow> pstate \<Rightarrow> pstate outcome" where
  "poll_task e task ts s =
     and_then (pollStartSDR e task s) (\<lambda>s1.
     and_then (pollStartSDRTrees e task s1) (\<lambda>s2.
     and_then (pollStartPrecommitMsg e task s2) (\<lambda>s3.
     and_then (pollStartPoRep e task ts (mustPoll (pollPrecommitMsgLanded e task s3))) (\<lambda>s5.
     and_then (pollStartCommitMsg e task s5) (\<lambda>s6.
     Done (mustPoll (pollCommitMsgLanded e task s6)))))))"

text \<open>The \<open>for _, task := range tasks\<close> loop of \<open>poll\<close>.\<close>

fun poll_loop :: "env \<Rightarrow> pollTask list \<Rightarrow> pstate \<Rightarrow> (error option \<times> pstate) outcome" where
  "poll_loop e [] s = Done (None, s)"
| "poll_loop e (task # tasks) s =
     (if Failed task then poll_loop e tasks s
      else
        (case ChainHead e (head_reads s) of
           Inl err \<Rightarrow> Done (Some (Errorf ''getting chain head'' err), s\<lparr>head_reads := Suc (head_reads s)\<rparr>)
         | Inr ts \<Rightarrow>
            (case poll_task e task ts (s\<lparr>head_reads := Suc (head_reads s)\<rparr>) of
               Blocked \<Rightarrow> Blocked
             | Done s' \<Rightarrow> poll_loop e tasks s')))"

definition poll :: "env \<Rightarrow> pstate \<Rightarrow> (error option \<times> pstate) outcome" where
  "poll e s =
     (case Select_tasks e (\<lambda>r. after_commit_msg_success r \<noteq> True) s of
        (Inl err, s') \<Rightarrow> Done (Some err, s')
      | (Inr tasks, s') \<Rightarrow> poll_loop e tasks s')"

section \<open>The spread assigner (SpreadWS)\<close>

text \<open>
  A worker id is a UUID in the source; here it is a number, and the zero value is 0. A
  panic of the Go runtime is a value.
\<close>

type_synonym WorkerID = nat

datatype panic = IndexOutOfRange | NilDereference | MakeCapOutOfRange

record SectorRef =
  Number :: nat
  ProofType :: int

record WorkerRequest =
  Sector :: SectorRef
  TaskType :: string
  IndexHeap :: int

record 'info WorkerHandle =
  Info :: 'info

record SchedWindowRequest =
  Worker :: WorkerID

record 'alloc SchedWindow =
  Allocated :: 'alloc
  Todo :: "WorkerRequest list"

record 'info Scheduler =
  SchedQueue :: "WorkerRequest list"
  OpenWindows :: "SchedWindowRequest list"
  Workers :: "WorkerID \<rightharpoonup> 'info WorkerHandle"

text \<open>
  The declarations of package \<open>storiface\<close> and of the windows' resources are not among the
  sources; they are parameters of the model. \<open>'info\<close> is \<open>storiface.WorkerInfo\<close>, \<open>'res\<close> is
  \<open>storiface.Resources\<close>, \<open>'alloc\<close> is the type of a window's \<open>Allocated\<close>.
  \<open>ResourceSpec inf spt tt\<close> is \<open>inf.Resources.ResourceSpec(spt, tt)\<close>,
  \<open>CanHandleRequest a res wid caller inf\<close> is \<open>a.CanHandleRequest(res, wid, caller, inf)\<close>, the
  window's admission test, and \<open>zeroWorkerInfo\<close> is the zero value of \<open>storiface.WorkerInfo\<close>.
\<close>

record ('info, 'res, 'alloc) storiface =
  ResourceSpec :: "'info \<Rightarrow> int \<Rightarrow> string \<Rightarrow> 'res"
  CanHandleRequest :: "'alloc \<Rightarrow> 'res \<Rightarrow> WorkerID \<Rightarrow> string \<Rightarrow> 'info \<Rightarrow> bool"
  zeroWorkerInfo :: 'info

definition MaxInt :: int where
  "MaxInt = 2 ^ 63 - 1"

text \<open>\<open>xs[i]\<close> for a Go \<open>int\<close> index: out of range it panics.\<close>

definition index :: "'a list \<Rightarrow> int \<Rightarrow> panic + 'a" where
  "index xs i = (if 0 \<le> i \<and> i < int (length xs) then Inr (xs ! nat i) else Inl IndexOutOfRange)"

text \<open>\<open>wu, _ := workerAssigned[wid]\<close>: a worker that is not in the map counts 0.\<close>

definition assigned :: "(WorkerID \<rightharpoonup> int) \<Rightarrow> WorkerID \<Rightarrow> int" where
  "assigned workerAssigned wid = (case workerAssigned wid of None \<Rightarrow> 0 | Some n \<Rightarrow> n)"

text \<open>The variables that the scan of the acceptable windows of one task keeps.\<close>

record 'info pick =
  selectedWindow :: int
  info :: 'info
  bestWid :: WorkerID
  bestAssigned :: int

text \<open>
  The loop \<open>for i, wnd := range acceptableWindows[task.IndexHeap]\<close>. The resource request
  and the admission test are made with \<open>info\<close>, the variable of the scan, which holds the
  zero value until a window is selected and the info of the selected window's worker
  afterwards; the handle \<open>w\<close> of the candidate's worker is read only when the candidate is
  selected.
\<close>

fun scan_windows :: "('info, 'res, 'alloc) storiface \<Rightarrow> 'info Scheduler \<Rightarrow> 'alloc SchedWindow list \<Rightarrow>
    (WorkerID \<rightharpoonup> int) \<Rightarrow> WorkerRequest \<Rightarrow> int list \<Rightarrow> 'info pick \<Rightarrow> panic + 'info pick" where
  "scan_windows x sh windows workerAssigned task [] p = Inr p"
| "scan_windows x sh windows workerAssigned task (wnd # rest) p =
     (case index (OpenWindows sh) wnd of
        Inl err \<Rightarrow> Inl err
      | Inr ow \<Rightarrow>
         (let wid = Worker ow;
              w = Workers sh wid;
              res = ResourceSpec x (info p) (ProofType (Sector task)) (TaskType task)
          in case index windows wnd of
               Inl err \<Rightarrow> Inl err
             | Inr win \<Rightarrow>
                if \<not> CanHandleRequest x (Allocated win) res wid ''schedAssign'' (info p)
                then scan_windows x sh windows workerAssigned task rest p
                else
                  (let wu = assigned workerAssigned wid
                   in if wu \<ge> bestAssigned p
                      then scan_windows x sh windows workerAssigned task rest p
                      else (case w of
                              None \<Rightarrow> Inl NilDereference
                            | Some wh \<Rightarrow>
                                scan_windows x sh windows workerAssigned task rest
                                  \<lparr> selectedWindow = wnd, info = Info wh, bestWid = wid,
                                    bestAssigned = wu \<rparr>))))"

text \<open>The variables of one pass; \<open>windows\<close> is the slice that the pass changes in place.\<close>

record 'alloc pass =
  scheduled :: int
  rmQueue :: "nat list"
  workerAssigned :: "WorkerID \<rightharpoonup> int"
  windows :: "'alloc SchedWindow list"

text \<open>The variables of a pass before the first task: nothing scheduled, every counter zero.\<close>

definition start_pass :: "'alloc SchedWindow list \<Rightarrow> 'alloc pass" where
  "start_pass wins = \<lparr> scheduled = 0, rmQueue = [], workerAssigned = Map.empty, windows = wins \<rparr>"

text \<open>The values of the scan's variables before the first candidate.\<close>

definition no_pick :: "('info, 'res, 'alloc) storiface \<Rightarrow> 'info pick" where
  "no_pick x = \<lparr> selectedWindow = - 1, info = zeroWorkerInfo x, bestWid = 0, bestAssigned = MaxInt \<rparr>"

text \<open>The body of the loop over the queue, for the queue index \<open>sqi\<close>.\<close>

definition spread_task :: "('info, 'res, 'alloc) storiface \<Rightarrow> 'info Scheduler \<Rightarrow> int list list \<Rightarrow>
    nat \<Rightarrow> 'alloc pass \<Rightarrow> panic + 'alloc pass" where
  "spread_task x sh acceptableWindows sqi st =
     (case index (SchedQueue sh) (int sqi) of
        Inl err \<Rightarrow> Inl err
      | Inr task \<Rightarrow>
         (case index acceptableWindows (IndexHeap task) of
            Inl err \<Rightarrow> Inl err
          | Inr cands \<Rightarrow>
             (case scan_windows x sh (windows st) (workerAssigned st) task cands (no_pick x) of
                Inl err \<Rightarrow> Inl err
              | Inr p \<Rightarrow>
                 if selectedWindow p < 0 then Inr st
                 else
                   (case index (windows st) (selectedWindow p) of
                      Inl err \<Rightarrow> Inl err
                    | Inr win \<Rightarrow>
                        Inr (st\<lparr> workerAssigned :=
                                   (workerAssigned st)
                                     (bestWid p \<mapsto> assigned (workerAssigned st) (bestWid p) + 1),
                                 windows :=
                                   (windows st)[nat (selectedWindow p) :=
                                      win\<lparr>Todo := Todo win @ [task]\<rparr>],
                                 rmQueue := rmQueue st @ [sqi],
                                 scheduled := scheduled st + 1 \<rparr>)))))"

text \<open>The loop \<open>for sqi := 0; sqi < queueLen; sqi++\<close>, from the index \<open>sqi\<close> on.\<close>

function spread_loop :: "('info, 'res, 'alloc) storiface \<Rightarrow> 'info Scheduler \<Rightarrow> int list list \<Rightarrow>
    int \<Rightarrow> nat \<Rightarrow> 'alloc pass \<Rightarrow> panic + 'alloc pass" where
  "spread_loop x sh acceptableWindows queueLen sqi st =
     (if int sqi < queueLen
      then (case spread_task x sh acceptableWindows sqi st of
              Inl err \<Rightarrow> Inl err
            | Inr st' \<Rightarrow> spread_loop x sh acceptableWindows queueLen (Suc sqi) st')
      else Inr st)"
  by pat_completeness auto
termination
  by (relation "measure (\<lambda>(x, sh, acceptableWindows, queueLen, sqi, st). nat (queueLen - int sqi))") auto

text \<open>
  Modelled from the spec: \<open>Remove\<close> of the request queue (the queue's own code is not among
  the sources; the spec has the queue "removable by index" and the placed tasks removed
  "preserving relative order of the remainder"). The task at the index leaves the queue and
  the others keep their order; an index out of range panics.
\<close>

definition Remove :: "WorkerRequest list \<Rightarrow> nat \<Rightarrow> panic + WorkerRequest list" where
  "Remove q i = (if i < length q then Inr (take i q @ drop (Suc i) q) else Inl IndexOutOfRange)"

text \<open>
  The loop \<open>for i := len(rmQueue) - 1; i >= 0; i--\<close>; the list holds the indices in the
  order in which the loop takes them, last first.
\<close>

fun remove_all :: "WorkerRequest list \<Rightarrow> nat list \<Rightarrow> panic + WorkerRequest list" where
  "remove_all q [] = Inr q"
| "remove_all q (i # rest) =
     (case Remove q i of Inl err \<Rightarrow> Inl err | Inr q' \<Rightarrow> remove_all q' rest)"

text \<open>
  \<open>SpreadWS\<close>: the number of tasks scheduled, with the scheduler (its queue changed) and the
  windows after the pass. \<open>make([]int, 0, queueLen)\<close> panics for a negative \<open>queueLen\<close>.
\<close>

definition SpreadWS :: "('info, 'res, 'alloc) storiface \<Rightarrow> 'info Scheduler \<Rightarrow> int \<Rightarrow> int list list \<Rightarrow>
    'alloc SchedWindow list \<Rightarrow> panic + (int \<times> 'info Scheduler \<times> 'alloc SchedWindow list)" where
  "SpreadWS x sh queueLen acceptableWindows wins =
     (if queueLen < 0 then Inl MakeCapOutOfRange
      else
        (case spread_loop x sh acceptableWindows queueLen 0 (start_pass wins) of
           Inl err \<Rightarrow> Inl err
         | Inr st \<Rightarrow>
            (case remove_all (SchedQueue sh) (rev (rmQueue st)) of
               Inl err \<Rightarrow> Inl err
             | Inr q \<Rightarrow> Inr (scheduled st, sh\<lparr>SchedQueue := q\<rparr>, windows st))))"

declare spread_loop.simps [simp del]

section \<open>Notions of the specification, and inputs for the examples\<close>



text \<open>A record as it enters the pipeline: nothing claimed, nothing done.\<close>

definition new_row :: "int64 \<Rightarrow> int64 \<Rightarrow> pipeline_row" where
  "new_row sp sn =
     \<lparr> sp_id = sp, sector_number = sn,
       task_id_sdr = None, after_sdr = False,
       task_id_tree_d = None, after_tree_d = False,
       task_id_tree_c = None, after_tree_c = False,
       task_id_tree_r = None, after_tree_r = False,
       task_id_precommit_msg = None, after_precommit_msg = False,
       after_precommit_msg_success = False, seed_epoch = None,
       precommit_msg_cid = None, precommit_msg_tsk = None,
       task_id_porep = None, porep_proof = [], after_porep = False,
       task_id_commit_msg = None, after_commit_msg = False,
       after_commit_msg_success = False,
       commit_msg_cid = None, commit_msg_tsk = None,
       failed = False, failed_reason = [] \<rparr>"

text \<open>
  Collaborators without faults: every handle is set, the chain head stays at height \<open>h\<close>,
  no message has been executed and the chain knows no sector.
\<close>

definition calm_env :: "int64 \<Rightarrow> env" where
  "calm_env h =
     \<lparr> pollers = (\<lambda>_. True), ChainHead = (\<lambda>_. Inr h), NewIDAddress = (\<lambda>i. Inr i),
       StateSectorPreCommitInfo = (\<lambda>_ _. Inr None), StateSectorGetInfo = (\<lambda>_ _. Inr False),
       GetPreCommitChallengeDelay = 150, message_waits = [], db_fault = (\<lambda>_. None) \<rparr>"

text \<open>The state before the first tick, for a given table.\<close>

definition start :: "pipeline_row list \<Rightarrow> pstate" where
  "start tbl =
     \<lparr> table = tbl, db_ops = 0, head_reads = 0, next_id = 1, added = [], attempts = [], logged = [] \<rparr>"

text \<open>The key of a record: provider identity and sector number.\<close>

definition key :: "pipeline_row \<Rightarrow> int64 \<times> int64" where
  "key r = (sp_id r, sector_number r)"

text \<open>
  The writes of the poller, one for each of its seven \<open>UPDATE\<close> statements, with the
  condition on the row that the statement's \<open>WHERE\<close> states besides the key.
\<close>

inductive row_write :: "pipeline_row \<Rightarrow> pipeline_row \<Rightarrow> bool" where
  write_sdr: "task_id_sdr r = None \<Longrightarrow> row_write r (r\<lparr>task_id_sdr := Some tid\<rparr>)"
| write_trees: "after_sdr r \<Longrightarrow> task_id_tree_d r = None \<Longrightarrow> task_id_tree_c r = None \<Longrightarrow>
     task_id_tree_r r = None \<Longrightarrow>
     row_write r (r\<lparr>task_id_tree_d := Some tid, task_id_tree_c := Some tid, task_id_tree_r := Some tid\<rparr>)"
| write_precommit_msg: "task_id_precommit_msg r = None \<Longrightarrow> after_tree_r r \<Longrightarrow> after_tree_d r \<Longrightarrow>
     row_write r (r\<lparr>task_id_precommit_msg := Some tid\<rparr>)"
| write_precommit_landed: "seed_epoch r = None \<Longrightarrow>
     row_write r (r\<lparr>seed_epoch := Some randHeight, precommit_msg_tsk := Some tsk,
                     after_precommit_msg_success := True\<rparr>)"
| write_porep: "task_id_porep r = None \<Longrightarrow> row_write r (r\<lparr>task_id_porep := Some tid\<rparr>)"
| write_commit_msg: "task_id_commit_msg r = None \<Longrightarrow> row_write r (r\<lparr>task_id_commit_msg := Some tid\<rparr>)"
| write_commit_landed: "after_commit_msg_success r = False \<Longrightarrow>
     row_write r (r\<lparr>after_commit_msg_success := True, commit_msg_tsk := Some tsk\<rparr>)"

text \<open>
  What the calls made within a tick for the records may do to the state: every row goes
  through writes of the poller, and no chain head is read.
\<close>

definition within_tick :: "pstate \<Rightarrow> pstate \<Rightarrow> bool" where
  "within_tick s s' \<longleftrightarrow>
     list_all2 (rtranclp row_write) (table s) (table s') \<and> head_reads s' = head_reads s"

text \<open>
  Collaborators after a message has landed: the message \<open>''msg''\<close> was executed at epoch
  100 in the tipset \<open>''tsk''\<close>, the chain holds the precommit info (precommit epoch 100)
  and the sector info of every sector, and the chain head stays at height \<open>h\<close>.
\<close>

definition landed_env :: "int64 \<Rightarrow> env" where
  "landed_env h =
     (calm_env h)
     \<lparr> StateSectorPreCommitInfo := (\<lambda>_ _. Inr (Some 100)),
       StateSectorGetInfo := (\<lambda>_ _. Inr True),
       message_waits :=
         [\<lparr> signed_message_cid = ''msg'', executed_tsk_cid = ''tsk'', executed_tsk_epoch = Some 100,
            executed_msg_cid = ''msg'', executed_rcpt_exitcode = 0, executed_rcpt_gas_used = 0 \<rparr>] \<rparr>"

text \<open>
  A record whose first three stages are claimed and completed and whose precommit message
  \<open>''msg''\<close> has been submitted; its landing is not recorded yet.
\<close>

definition submitted_row :: "int64 \<Rightarrow> int64 \<Rightarrow> pipeline_row" where
  "submitted_row sp sn =
     (new_row sp sn)
     \<lparr> task_id_sdr := Some 101, after_sdr := True,
       task_id_tree_d := Some 102, after_tree_d := True,
       task_id_tree_c := Some 102, after_tree_c := True,
       task_id_tree_r := Some 102, after_tree_r := True,
       task_id_precommit_msg := Some 103, after_precommit_msg := True,
       precommit_msg_cid := Some ''msg'' \<rparr>"

text \<open>
  A record whose PoRep is computed and whose commit message \<open>''msg''\<close> has been claimed by
  task 105 and submitted; \<open>done\<close> tells whether that task has completed.
\<close>

definition committing_row :: "int64 \<Rightarrow> int64 \<Rightarrow> bool \<Rightarrow> pipeline_row" where
  "committing_row sp sn done =
     (submitted_row sp sn)
     \<lparr> after_precommit_msg_success := True, seed_epoch := Some 250, precommit_msg_tsk := Some ''tsk'',
       task_id_porep := Some 104, porep_proof := [1], after_porep := True,
       task_id_commit_msg := Some 105, after_commit_msg := done,
       commit_msg_cid := Some ''msg'' \<rparr>"

text \<open>
  The row of the record that a task was read from, when no two rows of the table have the
  same key: \<open>own_row s i task\<close> says that it is the row at index \<open>i\<close>.
\<close>

definition own_row :: "pstate \<Rightarrow> nat \<Rightarrow> pollTask \<Rightarrow> bool" where
  "own_row s i task \<longleftrightarrow>
     distinct (map key (table s)) \<and> i < length (table s)
     \<and> key (table s ! i) = (SpID task, SectorNumber task)"

text \<open>
  What a tick leaves behind for a record, from the row \<open>r0\<close> before the tick to the row
  \<open>r1\<close> after it, at chain height \<open>h\<close>: unless the record is failed or has reached
  terminal success, none of the conditions of the SDR, tree, precommit-message and
  commit-message stages holds for the record as it would be read now, and the condition of
  the PoRep stage can hold only if the seed epoch was null before the tick and is set now.
\<close>

definition claims_settled :: "env \<Rightarrow> int64 \<Rightarrow> pipeline_row \<Rightarrow> pipeline_row \<Rightarrow> bool" where
  "claims_settled e h r0 r1 \<longleftrightarrow>
     key r1 = key r0 \<and> failed r1 = failed r0
     \<and> (\<not> failed r1 \<and> after_commit_msg_success r1 \<noteq> True \<longrightarrow>
          \<not> readySDR e (scan_pollTask r1) \<and> \<not> readySDRTrees e (scan_pollTask r1)
        \<and> \<not> readyPrecommitMsg (scan_pollTask r1) \<and> \<not> readyCommitMsg e (scan_pollTask r1)
        \<and> (readyPoRep e (scan_pollTask r1) h \<longrightarrow> seed_epoch r0 = None \<and> seed_epoch r1 \<noteq> None))"

text \<open>The worker that owns the open window with index \<open>wnd\<close>.\<close>

definition owner :: "'info Scheduler \<Rightarrow> int \<Rightarrow> WorkerID" where
  "owner sh wnd = Worker (OpenWindows sh ! nat wnd)"

text \<open>
  The admission test as the scan makes it for the candidate window \<open>wnd\<close>, when its variable
  \<open>info\<close> holds \<open>wi\<close>.
\<close>

definition admits :: "('info, 'res, 'alloc) storiface \<Rightarrow> 'info Scheduler \<Rightarrow> 'alloc SchedWindow list \<Rightarrow>
    WorkerRequest \<Rightarrow> 'info \<Rightarrow> int \<Rightarrow> bool" where
  "admits x sh wins task wi wnd \<longleftrightarrow>
     CanHandleRequest x (Allocated (wins ! nat wnd))
       (ResourceSpec x wi (ProofType (Sector task)) (TaskType task))
       (owner sh wnd) ''schedAssign'' wi"

text \<open>
  The candidate at position \<open>j\<close> of the acceptable windows is feasible: the scan reaches it
  and the admission test made there passes.
\<close>

definition feasible_at :: "('info, 'res, 'alloc) storiface \<Rightarrow> 'info Scheduler \<Rightarrow>
    'alloc SchedWindow list \<Rightarrow> (WorkerID \<rightharpoonup> int) \<Rightarrow> WorkerRequest \<Rightarrow> int list \<Rightarrow> nat \<Rightarrow> bool" where
  "feasible_at x sh wins wa task cands j \<longleftrightarrow>
     (case scan_windows x sh wins wa task (take j cands) (no_pick x) of
        Inl err \<Rightarrow> False
      | Inr p \<Rightarrow> admits x sh wins task (info p) (cands ! j))"


text \<open>The variables of the pass after the task with queue index \<open>sqi\<close> is placed in window \<open>wnd\<close>.\<close>

definition place :: "'info Scheduler \<Rightarrow> nat \<Rightarrow> nat \<Rightarrow> 'alloc pass \<Rightarrow> 'alloc pass" where
  "place sh sqi wnd st =
     st\<lparr> workerAssigned :=
           (workerAssigned st)
             (owner sh (int wnd) \<mapsto> assigned (workerAssigned st) (owner sh (int wnd)) + 1),
         windows :=
           (windows st)[wnd := (windows st ! wnd)\<lparr>Todo := Todo (windows st ! wnd) @ [SchedQueue sh ! sqi]\<rparr>],
         rmQueue := rmQueue st @ [sqi],
         scheduled := scheduled st + 1 \<rparr>"

text \<open>
  The placements of a pass, each a queue index with the index of the window that took
  the task, in the order in which they were made, account for the variables \<open>st\<close> of the
  pass over the windows \<open>wins\<close>: the indices to remove are the placed ones, the count is
  their number, every window's pending list has grown by the tasks placed in it, in
  order, and nothing else of a window has changed, and the counter of every worker is the
  number of tasks placed in its windows.
\<close>

definition placements :: "'info Scheduler \<Rightarrow> 'alloc SchedWindow list \<Rightarrow> 'alloc pass \<Rightarrow>
    (nat \<times> nat) list \<Rightarrow> bool" where
  "placements sh wins st pl \<longleftrightarrow>
     rmQueue st = map fst pl
     \<and> scheduled st = int (length pl)
     \<and> length (windows st) = length wins
     \<and> (\<forall>w < length wins.
          windows st ! w =
            (wins ! w)\<lparr>Todo := Todo (wins ! w) @ map (\<lambda>(i, w'). SchedQueue sh ! i) (filter (\<lambda>(i, w'). w' = w) pl)\<rparr>)
     \<and> (\<forall>(i, w) \<in> set pl. i < length (SchedQueue sh) \<and> w < length wins \<and> w < length (OpenWindows sh))
     \<and> (\<forall>wid. assigned (workerAssigned st) wid
                = int (length (filter (\<lambda>(i, w). owner sh (int w) = wid) pl)))"

text \<open>An admission test and tasks for the examples: a window admits while it has room.\<close>

definition room_iface :: "nat \<Rightarrow> (nat, nat, nat) storiface" where
  "room_iface cap =
     \<lparr> ResourceSpec = (\<lambda>wi spt tt. 1),
       CanHandleRequest = (\<lambda>a res wid caller wi. a + res \<le> cap),
       zeroWorkerInfo = 0 \<rparr>"

text \<open>An admission test that compares the request with the memory of the worker info given.\<close>

definition mem_iface :: "(nat, nat, nat) storiface" where
  "mem_iface =
     \<lparr> ResourceSpec = (\<lambda>wi spt tt. 1),
       CanHandleRequest = (\<lambda>a res wid caller wi. a + res \<le> wi),
       zeroWorkerInfo = 0 \<rparr>"

definition seal_task :: "nat \<Rightarrow> int \<Rightarrow> WorkerRequest" where
  "seal_task n ih =
     \<lparr> Sector = \<lparr> Number = n, ProofType = 8 \<rparr>, TaskType = ''seal/v0/precommit/1'', IndexHeap = ih \<rparr>"

text \<open>
  A scheduler for the examples: three tasks in the queue, three open windows, the first
  two of worker 1 and the third of worker 2, both workers with memory 10; and three empty
  windows.
\<close>

definition three_tasks :: "nat Scheduler" where
  "three_tasks =
     \<lparr> SchedQueue = [seal_task 1 0, seal_task 2 1, seal_task 3 2],
       OpenWindows = [\<lparr> Worker = 1 \<rparr>, \<lparr> Worker = 1 \<rparr>, \<lparr> Worker = 2 \<rparr>],
       Workers = [1 \<mapsto> \<lparr> Info = 10 \<rparr>, 2 \<mapsto> \<lparr> Info = 10 \<rparr>] \<rparr>"

definition empty_windows :: "nat \<Rightarrow> nat SchedWindow list" where
  "empty_windows n = replicate n \<lparr> Allocated = 0, Todo = [] \<rparr>"

text \<open>A scheduler with one task in the queue and one open window, of worker 1 with memory 10.\<close>

definition one_task :: "nat Scheduler" where
  "one_task =
     \<lparr> SchedQueue = [seal_task 1 0], OpenWindows = [\<lparr> Worker = 1 \<rparr>],
       Workers = [1 \<mapsto> \<lparr> Info = 10 \<rparr>] \<rparr>"

section \<open>The poller: what the claims of the stages do\<close>

subsection \<open>The data store's update and the handle\<close>

lemma Exec_cases:
  assumes "Exec e wh st tx = (res, tx')"
  obtains (fault) err where "db_fault e (db_ops tx) = Some err" "res = Inl err"
      "tx' = tx\<lparr>db_ops := Suc (db_ops tx)\<rparr>"
    | (ok) "db_fault e (db_ops tx) = None" "res = Inr (length (filter wh (table tx)))"
      "tx' = tx\<lparr>table := map (\<lambda>r. if wh r then st r else r) (table tx), db_ops := Suc (db_ops tx)\<rparr>"
  using assms by (auto simp: Exec_def split: option.splits)








subsection \<open>What the calls of a tick may change\<close>

lemma within_tick_refl: "within_tick s s"
  by (simp add: within_tick_def list_all2_refl)

lemma within_tick_trans: "within_tick s s' \<Longrightarrow> within_tick s' s'' \<Longrightarrow> within_tick s s''"
proof -
  assume a: "within_tick s s'" and b: "within_tick s' s''"
  have "list_all2 (rtranclp row_write) (table s) (table s'')"
  proof (rule list_all2_trans)
    show "rtranclp row_write x y \<Longrightarrow> rtranclp row_write y z \<Longrightarrow> rtranclp row_write x z" for x y z
      by simp
    show "list_all2 (rtranclp row_write) (table s) (table s')" using a by (simp add: within_tick_def)
    show "list_all2 (rtranclp row_write) (table s') (table s'')" using b by (simp add: within_tick_def)
  qed
  with a b show ?thesis by (simp add: within_tick_def)
qed

lemma within_tick_same_table:
  "table s' = table s \<Longrightarrow> head_reads s' = head_reads s \<Longrightarrow> within_tick s s'"
  by (simp add: within_tick_def list_all2_refl)

lemma Exec_within_tick:
  assumes "Exec e wh st s = (res, s')" and "\<And>r. wh r \<Longrightarrow> row_write r (st r)"
  shows "within_tick s s'"
  using assms(1)
proof (cases rule: Exec_cases)
  case (fault err)
  then show ?thesis by (simp add: within_tick_same_table)
next
  case ok
  have "list_all2 (rtranclp row_write) (table s) (map (\<lambda>r. if wh r then st r else r) (table s))"
    using assms(2) by (auto simp: list_all2_conv_all_nth)
  with ok show ?thesis by (simp add: within_tick_def)
qed

lemma AddTaskFunc_within_tick:
  assumes "\<And>tx res tx'. extra (next_id s) tx = (res, tx') \<Longrightarrow> within_tick tx tx'"
  shows "within_tick s (AddTaskFunc stg task extra s)"
proof -
  let ?s0 = "s\<lparr>next_id := next_id s + 1, attempts := attempts s @ [(stg, SpID task, SectorNumber task)]\<rparr>"
  obtain c err s1 where ex: "extra (next_id s) ?s0 = ((c, err), s1)"
    by (metis prod.exhaust)
  from assms [OF ex] have "within_tick s s1" by (simp add: within_tick_def)
  then show ?thesis
    using ex by (auto simp: AddTaskFunc_def Let_def within_tick_def list_all2_refl)
qed

lemma claim_within_tick:
  assumes "\<And>r. wh r \<Longrightarrow> row_write r (st r)"
    and "(case Exec e wh st tx of
          (Inl err, tx') \<Rightarrow> ((False, Some (Errorf m err)), tx')
        | (Inr n, tx') \<Rightarrow> if n \<noteq> 1 then ((False, Some (ExpectedOneRow n)), tx') else ((True, None), tx'))
        = (res, tx')"
  shows "within_tick tx tx'"
proof -
  obtain r tx1 where ex: "Exec e wh st tx = (r, tx1)" by (cases "Exec e wh st tx")
  with assms(2) have "tx' = tx1" by (auto split: sum.splits if_splits)
  with Exec_within_tick [OF ex assms(1)] show ?thesis by simp
qed

lemma pollStartSDR_within_tick: "pollStartSDR e task s = Done s' \<Longrightarrow> within_tick s s'"
  unfolding pollStartSDR_def Val_def
  by (auto simp: within_tick_refl pollStartSDR_claim_def split: if_splits
      intro!: AddTaskFunc_within_tick elim!: claim_within_tick [rotated] intro: row_write.intros)

lemma pollStartSDRTrees_within_tick: "pollStartSDRTrees e task s = Done s' \<Longrightarrow> within_tick s s'"
  unfolding pollStartSDRTrees_def Val_def
  by (auto simp: within_tick_refl pollStartSDRTrees_claim_def split: if_splits
      intro!: AddTaskFunc_within_tick elim!: claim_within_tick [rotated] intro: row_write.intros)

lemma pollStartPrecommitMsg_within_tick: "pollStartPrecommitMsg e task s = Done s' \<Longrightarrow> within_tick s s'"
  unfolding pollStartPrecommitMsg_def Val_def
  by (auto simp: within_tick_refl pollStartPrecommitMsg_claim_def split: if_splits
      intro!: AddTaskFunc_within_tick elim!: claim_within_tick [rotated] intro: row_write.intros)

lemma pollStartPoRep_within_tick: "pollStartPoRep e task ts s = Done s' \<Longrightarrow> within_tick s s'"
  unfolding pollStartPoRep_def Val_def
  by (auto simp: within_tick_refl pollStartPoRep_claim_def split: if_splits
      intro!: AddTaskFunc_within_tick elim!: claim_within_tick [rotated] intro: row_write.intros)

lemma pollStartCommitMsg_within_tick: "pollStartCommitMsg e task s = Done s' \<Longrightarrow> within_tick s s'"
  unfolding pollStartCommitMsg_def Val_def
  by (auto simp: within_tick_refl pollStartCommitMsg_claim_def split: if_splits
      intro!: AddTaskFunc_within_tick elim!: claim_within_tick [rotated] intro: row_write.intros)

lemma Select_waits_state:
  "Select_waits e col sp sn s = (res, s') \<Longrightarrow> s' = s\<lparr>db_ops := Suc (db_ops s)\<rparr>"
  by (auto simp: Select_waits_def split: option.splits)

lemma Select_tasks_state:
  "Select_tasks e wh s = (res, s') \<Longrightarrow> s' = s\<lparr>db_ops := Suc (db_ops s)\<rparr>"
  by (auto simp: Select_tasks_def split: option.splits)

lemma pollPrecommitMsgLanded_within_tick:
  assumes "pollPrecommitMsgLanded e task s = (err, s')"
  shows "within_tick s s'"
proof (cases "TaskPrecommitMsg task \<noteq> None \<and> \<not> AfterPrecommitMsgSuccess task")
  case False
  with assms show ?thesis by (auto simp: pollPrecommitMsgLanded_def within_tick_refl)
next
  case True
  obtain res s1 where sel: "Select_waits e precommit_msg_cid (SpID task) (SectorNumber task) s = (res, s1)"
    by (cases "Select_waits e precommit_msg_cid (SpID task) (SectorNumber task) s")
  have s1: "s1 = s\<lparr>db_ops := Suc (db_ops s)\<rparr>" using sel by (rule Select_waits_state)
  obtain execResult s2 where s2: "(case res of
                  Inl err \<Rightarrow> ([], s1\<lparr>logged := logged s1 @ [Errorw ''failed to query message_waits'' (Some err)]\<rparr>)
                | Inr rows \<Rightarrow> (rows, s1)) = (execResult, s2)"
    by (metis prod.exhaust)
  have w2: "within_tick s s2"
    using s1 s2 by (auto simp: within_tick_def list_all2_refl split: sum.splits)
  have "within_tick s2 s'"
    using assms True sel s2
    by (auto simp: pollPrecommitMsgLanded_def within_tick_refl Let_def
        split: sum.splits option.splits prod.splits if_splits
        elim!: Exec_within_tick intro: row_write.intros)
  with w2 show ?thesis by (rule within_tick_trans)
qed

lemma pollCommitMsgLanded_within_tick:
  assumes "pollCommitMsgLanded e task s = (err, s')"
  shows "within_tick s s'"
proof (cases "AfterCommitMsg task \<and> \<not> AfterCommitMsgSuccess task \<and> IsSet e pollerCommitMsg")
  case False
  with assms show ?thesis by (auto simp: pollCommitMsgLanded_def within_tick_refl)
next
  case True
  obtain res s1 where sel: "Select_waits e commit_msg_cid (SpID task) (SectorNumber task) s = (res, s1)"
    by (cases "Select_waits e commit_msg_cid (SpID task) (SectorNumber task) s")
  have s1: "s1 = s\<lparr>db_ops := Suc (db_ops s)\<rparr>" using sel by (rule Select_waits_state)
  obtain execResult s2 where s2: "(case res of
                  Inl err \<Rightarrow> ([], s1\<lparr>logged := logged s1 @ [Errorw ''failed to query message_waits'' (Some err)]\<rparr>)
                | Inr rows \<Rightarrow> (rows, s1)) = (execResult, s2)"
    by (metis prod.exhaust)
  have w2: "within_tick s s2"
    using s1 s2 by (auto simp: within_tick_def list_all2_refl split: sum.splits)
  have "within_tick s2 s'"
    using assms True sel s2
    by (auto simp: pollCommitMsgLanded_def within_tick_refl within_tick_same_table Let_def
        split: sum.splits option.splits prod.splits if_splits bool.splits
        elim!: Exec_within_tick intro: row_write.intros)
  with w2 show ?thesis by (rule within_tick_trans)
qed

lemma mustPoll_within_tick: "within_tick s (snd r) \<Longrightarrow> within_tick s (mustPoll r)"
  by (cases r) (auto simp: mustPoll_def within_tick_def split: option.splits)

lemma and_then_Done: "and_then x f = Done y \<Longrightarrow> \<exists>z. x = Done z \<and> f z = Done y"
  by (cases x) auto

lemma poll_task_stages:
  assumes "poll_task e task ts s = Done s'"
  obtains s1 s2 s3 s5 s6 where
    "pollStartSDR e task s = Done s1" and
    "pollStartSDRTrees e task s1 = Done s2" and
    "pollStartPrecommitMsg e task s2 = Done s3" and
    "pollStartPoRep e task ts (mustPoll (pollPrecommitMsgLanded e task s3)) = Done s5" and
    "pollStartCommitMsg e task s5 = Done s6" and
    "s' = mustPoll (pollCommitMsgLanded e task s6)"
  using assms unfolding poll_task_def by (fastforce dest!: and_then_Done)

lemma poll_task_within_tick:
  assumes "poll_task e task ts s = Done s'"
  shows "within_tick s s'"
  using assms
proof (cases rule: poll_task_stages)
  case (1 s1 s2 s3 s5 s6)
  have 4: "within_tick s3 (mustPoll (pollPrecommitMsgLanded e task s3))"
    by (rule mustPoll_within_tick) (metis pollPrecommitMsgLanded_within_tick prod.collapse)
  have 8: "within_tick s6 s'"
    unfolding 1(6) by (rule mustPoll_within_tick) (metis pollCommitMsgLanded_within_tick prod.collapse)
  show ?thesis
    using pollStartSDR_within_tick [OF 1(1)] pollStartSDRTrees_within_tick [OF 1(2)]
      pollStartPrecommitMsg_within_tick [OF 1(3)] 4 pollStartPoRep_within_tick [OF 1(4)]
      pollStartCommitMsg_within_tick [OF 1(5)] 8
    by (blast intro: within_tick_trans)
qed

lemma poll_loop_step:
  assumes "poll_loop e (task # tasks) s = Done (err, s')" and "\<not> Failed task"
  obtains (head_error) x where "ChainHead e (head_reads s) = Inl x"
      "err = Some (Errorf ''getting chain head'' x)" "s' = s\<lparr>head_reads := Suc (head_reads s)\<rparr>"
    | (polled) ts s1 where "ChainHead e (head_reads s) = Inr ts"
      "poll_task e task ts (s\<lparr>head_reads := Suc (head_reads s)\<rparr>) = Done s1"
      "poll_loop e tasks s1 = Done (err, s')"
  using assms by (cases "ChainHead e (head_reads s)") (auto split: outcome.splits)

lemma poll_loop_table:
  "poll_loop e tasks s = Done (err, s') \<Longrightarrow> list_all2 (rtranclp row_write) (table s) (table s')"
proof (induction tasks arbitrary: s)
  case Nil
  then show ?case by (simp add: list_all2_refl)
next
  case (Cons task tasks)
  show ?case
  proof (cases "Failed task")
    case True
    with Cons show ?thesis by simp
  next
    case False
    from Cons.prems False show ?thesis
    proof (cases rule: poll_loop_step)
      case (head_error x)
      then show ?thesis by (simp add: list_all2_refl)
    next
      case (polled ts s1)
      from poll_task_within_tick [OF polled(2)]
      have "list_all2 (rtranclp row_write) (table s) (table s1)"
        by (simp add: within_tick_def)
      moreover note Cons.IH [OF polled(3)]
      ultimately show ?thesis
        by (rule list_all2_trans [rotated]) simp
    qed
  qed
qed


lemma poll_cases:
  assumes "poll e s = Done (err, s')"
  obtains (select_error) x where "db_fault e (db_ops s) = Some x" "err = Some x"
      "s' = s\<lparr>db_ops := Suc (db_ops s)\<rparr>"
    | (looped) "db_fault e (db_ops s) = None"
      "poll_loop e (map scan_pollTask (filter (\<lambda>r. after_commit_msg_success r \<noteq> True) (table s)))
         (s\<lparr>db_ops := Suc (db_ops s)\<rparr>) = Done (err, s')"
  using assms by (auto simp: poll_def Select_tasks_def split: option.splits)

lemma poll_table:
  assumes "poll e s = Done (err, s')"
  shows "list_all2 (rtranclp row_write) (table s) (table s')"
  using assms
proof (cases rule: poll_cases)
  case (select_error x)
  then show ?thesis by (simp add: list_all2_refl)
next
  case looped
  from poll_loop_table [OF looped(2)] show ?thesis by simp
qed

lemma rtranclp_row_write_seed:
  "rtranclp row_write r r' \<Longrightarrow> seed_epoch r \<noteq> None \<Longrightarrow> seed_epoch r' = seed_epoch r"
  by (induction rule: rtranclp_induct) (auto elim!: row_write.cases)

subsection \<open>Evaluating the model on the example inputs\<close>

lemmas poller_defs = poll_def poll_task_def Select_tasks_def Select_waits_def joined_waits_def
  Exec_def pollStartSDR_def pollStartSDRTrees_def pollStartPrecommitMsg_def pollStartPoRep_def
  pollStartCommitMsg_def pollStartSDR_claim_def pollStartSDRTrees_claim_def
  pollStartPrecommitMsg_claim_def pollStartPoRep_claim_def pollStartCommitMsg_claim_def
  pollPrecommitMsgLanded_def pollCommitMsgLanded_def mustPoll_def readyPoRep_def
  readySDR_def readySDRTrees_def readyPrecommitMsg_def readyCommitMsg_def
  AddTaskFunc_def Val_def IsSet_def scan_pollTask_def scan_execResult_def
  seedEpochConfidence_def Let_def

lemmas example_defs = calm_env_def landed_env_def new_row_def submitted_row_def
  committing_row_def start_def

subsection \<open>The delayed stage\<close>

text \<open>
  Without overflow of the 64-bit sum, the comparison of the source is the comparison of
  the heights as integers.
\<close>

lemma sle_margin_exact:
  fixes seed ts :: int64
  assumes "sint seed \<le> 2 ^ 63 - 4"
  shows "ts <s seed + seedEpochConfidence \<longleftrightarrow> sint ts < sint seed + 3"
proof -
  have lo: "- (2 ^ 63) \<le> sint seed" using sint_ge [of seed] by simp
  have "sint (seed + 3) = signed_take_bit 63 (sint seed + 3)"
    by (simp add: sint_word_ariths)
  also have "\<dots> = sint seed + 3"
    using assms lo by (intro signed_take_bit_int_eq_self) simp_all
  finally have "sint (seed + 3) = sint seed + 3" .
  then show ?thesis
    by (simp add: seedEpochConfidence_def word_sless_alt)
qed

text \<open>
  Claim C3. For every record and every observed chain height strictly less than the
  record's recorded seed epoch plus the confirmation margin (\<open>seedEpochConfidence = 3\<close>),
  stage 4 (PoRep) is not ready and no PoRep claim is attempted: \<open>pollStartPoRep\<close> leaves
  the state as it is. The sum is the \<open>int64\<close> sum of the source (first part); it is the sum
  of the integers for every seed epoch up to \<open>2^63 - 4\<close> (second part). Stage 4 is ready
  only when message-A landing succeeded, a seed epoch is recorded, the observed height is
  at least seed epoch plus margin, and no PoRep task is claimed yet.
\<close>

theorem stage4_waits_for_seed_margin:
  "(SeedEpoch task = Some seed \<and> ts <s seed + seedEpochConfidence \<longrightarrow>
      \<not> readyPoRep e task ts \<and> pollStartPoRep e task ts s = Done s)
   \<and> (SeedEpoch task = Some seed \<and> sint seed \<le> 2 ^ 63 - 4 \<and> sint ts < sint seed + 3 \<longrightarrow>
      \<not> readyPoRep e task ts \<and> pollStartPoRep e task ts s = Done s)
   \<and> (readyPoRep e task ts \<longrightarrow>
        AfterPrecommitMsgSuccess task \<and> TaskPoRep task = None
      \<and> (\<exists>seed. SeedEpoch task = Some seed \<and> seed + seedEpochConfidence \<le>s ts))
   \<and> (pollStartPoRep e task ts s \<noteq> Done s \<longrightarrow> readyPoRep e task ts)
   \<and> seedEpochConfidence = 3"
proof -
  have a: "\<not> readyPoRep e task ts" if "SeedEpoch task = Some seed" "ts <s seed + seedEpochConfidence"
    using that by (auto simp: readyPoRep_def)
  have b: "pollStartPoRep e task ts s = Done s" if "\<not> readyPoRep e task ts"
    using that by (simp add: pollStartPoRep_def)
  have c: "ts <s seed + seedEpochConfidence" if "sint seed \<le> 2 ^ 63 - 4" "sint ts < sint seed + 3"
    using that by (simp add: sle_margin_exact)
  have d: "AfterPrecommitMsgSuccess task \<and> TaskPoRep task = None
      \<and> (\<exists>seed. SeedEpoch task = Some seed \<and> seed + seedEpochConfidence \<le>s ts)"
    if "readyPoRep e task ts"
    using that by (auto simp: readyPoRep_def split: option.splits)
  show ?thesis using a b c d by (auto simp: seedEpochConfidence_def)
qed

theorem stage4_waits_for_seed_margin_witness:
  "\<not> readyPoRep (calm_env 102) (scan_pollTask ((new_row 1 1)\<lparr>after_precommit_msg_success := True, seed_epoch := Some 100\<rparr>)) 102
   \<and> pollStartPoRep (calm_env 102)
        (scan_pollTask ((new_row 1 1)\<lparr>after_precommit_msg_success := True, seed_epoch := Some 100\<rparr>)) 102
        (start [(new_row 1 1)\<lparr>after_precommit_msg_success := True, seed_epoch := Some 100\<rparr>])
      = Done (start [(new_row 1 1)\<lparr>after_precommit_msg_success := True, seed_epoch := Some 100\<rparr>])
   \<and> readyPoRep (calm_env 103) (scan_pollTask ((new_row 1 1)\<lparr>after_precommit_msg_success := True, seed_epoch := Some 100\<rparr>)) 103
   \<and> (100 :: int64) + seedEpochConfidence \<le>s 103"
proof -
  let ?r = "(new_row 1 1)\<lparr>after_precommit_msg_success := True, seed_epoch := Some 100\<rparr>"
  have seed: "SeedEpoch (scan_pollTask ?r) = Some 100"
    by (simp add: scan_pollTask_def)
  have before: "(102 :: int64) <s 100 + seedEpochConfidence"
    by (simp add: seedEpochConfidence_def)
  have ready: "readyPoRep (calm_env 103) (scan_pollTask ?r) 103"
    by (simp add: poller_defs example_defs)
  from stage4_waits_for_seed_margin [of "scan_pollTask ?r" 100 102 "calm_env 102" "start [?r]"] seed before
  have "\<not> readyPoRep (calm_env 102) (scan_pollTask ?r) 102"
    and "pollStartPoRep (calm_env 102) (scan_pollTask ?r) 102 (start [?r]) = Done (start [?r])"
    by blast+
  moreover from stage4_waits_for_seed_margin [of "scan_pollTask ?r" _ 103 "calm_env 103"] ready seed
  have "(100 :: int64) + seedEpochConfidence \<le>s 103"
    by auto
  ultimately show ?thesis using ready by blast
qed

subsection \<open>A handle that is not set\<close>

lemma guarded_stages_skip_unset_handle:
  "\<not> IsSet e pollerSDR \<Longrightarrow> pollStartSDR e task s = Done s"
  "\<not> IsSet e pollerTrees \<Longrightarrow> pollStartSDRTrees e task s = Done s"
  "\<not> IsSet e pollerPoRep \<Longrightarrow> pollStartPoRep e task ts s = Done s"
  "\<not> IsSet e pollerCommitMsg \<Longrightarrow> pollStartCommitMsg e task s = Done s"
  by (simp_all add: pollStartSDR_def pollStartSDRTrees_def pollStartPoRep_def readyPoRep_def
      pollStartCommitMsg_def readySDR_def readySDRTrees_def readyCommitMsg_def)

lemma precommit_msg_stage_waits:
  "readyPrecommitMsg task \<Longrightarrow> \<not> IsSet e pollerPrecommitMsg \<Longrightarrow>
     pollStartPrecommitMsg e task s = Blocked"
  by (simp add: pollStartPrecommitMsg_def Val_def IsSet_def)

text \<open>
  Claim C4 (not met by the code). For every stage, if the handle of the stage has not been
  supplied, the tick skips the stage's claim without error and without blocking. The four
  stages that ask \<open>IsSet\<close> do so (\<open>guarded_stages_skip_unset_handle\<close>). The precommit-message
  stage does not ask (\<open>precommit_msg_stage_waits\<close>): for a record whose trees are done
  and whose precommit message is not claimed, with every handle set but this one,
  \<open>pollStartPrecommitMsg\<close> takes the value of the unset promise and waits, and so does the
  tick; with the SDR handle unset instead, the SDR stage of a new record is skipped and the
  state is left as it is.
\<close>

theorem precommit_msg_waits_on_unset_handle:
  "pollStartPrecommitMsg ((calm_env 0)\<lparr>pollers := (\<lambda>st. st \<noteq> pollerPrecommitMsg)\<rparr>)
     (scan_pollTask ((new_row 1 1)\<lparr>task_id_sdr := Some 9, after_tree_d := True, after_tree_r := True\<rparr>))
     (start [(new_row 1 1)\<lparr>task_id_sdr := Some 9, after_tree_d := True, after_tree_r := True\<rparr>]) = Blocked
   \<and> poll ((calm_env 0)\<lparr>pollers := (\<lambda>st. st \<noteq> pollerPrecommitMsg)\<rparr>)
     (start [(new_row 1 1)\<lparr>task_id_sdr := Some 9, after_tree_d := True, after_tree_r := True\<rparr>]) = Blocked
   \<and> pollStartSDR ((calm_env 0)\<lparr>pollers := (\<lambda>st. st \<noteq> pollerSDR)\<rparr>)
     (scan_pollTask (new_row 1 1)) (start [new_row 1 1]) = Done (start [new_row 1 1])"
  by (simp add: poller_defs example_defs)

subsection \<open>Reading the chain head\<close>




subsection \<open>The seed epoch\<close>

text \<open>
  Claim C10. The recorded target epoch (\<open>seed_epoch\<close>) of a record is written at most
  once by the poller: the update of the message-A landing check that stores it is
  conditioned on \<open>seed_epoch\<close> being null, so a landing check leaves every seed epoch
  that is set as it is, and so does a whole tick.
\<close>

theorem seed_epoch_written_once:
  "(pollPrecommitMsgLanded e task s = (err, s') \<longrightarrow>
      length (table s') = length (table s)
    \<and> (\<forall>i < length (table s). seed_epoch (table s ! i) \<noteq> None \<longrightarrow>
          seed_epoch (table s' ! i) = seed_epoch (table s ! i)))
   \<and> (poll e s = Done (err, s') \<longrightarrow>
      length (table s') = length (table s)
    \<and> (\<forall>i < length (table s). seed_epoch (table s ! i) \<noteq> None \<longrightarrow>
          seed_epoch (table s' ! i) = seed_epoch (table s ! i)))"
proof -
  have kept: "length tbl' = length tbl
    \<and> (\<forall>i < length tbl. seed_epoch (tbl ! i) \<noteq> None \<longrightarrow> seed_epoch (tbl' ! i) = seed_epoch (tbl ! i))"
    if "list_all2 (rtranclp row_write) tbl tbl'" for tbl tbl'
    using that rtranclp_row_write_seed by (fastforce simp: list_all2_conv_all_nth)
  have a: "list_all2 (rtranclp row_write) (table s) (table s')"
    if "pollPrecommitMsgLanded e task s = (err, s')"
    using pollPrecommitMsgLanded_within_tick [OF that] by (simp add: within_tick_def)
  have b: "list_all2 (rtranclp row_write) (table s) (table s')" if "poll e s = Done (err, s')"
    using that by (rule poll_table)
  show ?thesis using kept a b by blast
qed

theorem seed_epoch_written_once_witness:
  "pollPrecommitMsgLanded (landed_env 1000) (scan_pollTask ((submitted_row 1 1)\<lparr>seed_epoch := Some 77\<rparr>))
     (start [(submitted_row 1 1)\<lparr>seed_epoch := Some 77\<rparr>])
   = (None, (start [(submitted_row 1 1)\<lparr>seed_epoch := Some 77\<rparr>])\<lparr>db_ops := 2\<rparr>)
   \<and> seed_epoch (table (start [(submitted_row 1 1)\<lparr>seed_epoch := Some 77\<rparr>]) ! 0) = Some 77
   \<and> seed_epoch (table ((start [(submitted_row 1 1)\<lparr>seed_epoch := Some 77\<rparr>])\<lparr>db_ops := 2\<rparr>) ! 0) = Some 77
   \<and> pollPrecommitMsgLanded (landed_env 1000) (scan_pollTask (submitted_row 1 1)) (start [submitted_row 1 1])
   = (None, (start [(submitted_row 1 1)\<lparr>seed_epoch := Some 250, precommit_msg_tsk := Some ''tsk'',
          after_precommit_msg_success := True\<rparr>])\<lparr>db_ops := 2\<rparr>)"
proof -
  let ?r = "(submitted_row 1 1)\<lparr>seed_epoch := Some 77\<rparr>"
  have ev: "pollPrecommitMsgLanded (landed_env 1000) (scan_pollTask ?r) (start [?r])
      = (None, (start [?r])\<lparr>db_ops := 2\<rparr>)"
    by (simp add: poller_defs example_defs)
  have ev': "pollPrecommitMsgLanded (landed_env 1000) (scan_pollTask (submitted_row 1 1)) (start [submitted_row 1 1])
   = (None, (start [(submitted_row 1 1)\<lparr>seed_epoch := Some 250, precommit_msg_tsk := Some ''tsk'',
          after_precommit_msg_success := True\<rparr>])\<lparr>db_ops := 2\<rparr>)"
    by (simp add: poller_defs example_defs)
  have before: "seed_epoch (table (start [?r]) ! 0) = Some 77"
    by (simp add: start_def)
  have "0 < length (table (start [?r]))" by (simp add: start_def)
  with seed_epoch_written_once [of "landed_env 1000" "scan_pollTask ?r" "start [?r]" None
      "(start [?r])\<lparr>db_ops := 2\<rparr>"] ev before
  have "seed_epoch (table ((start [?r])\<lparr>db_ops := 2\<rparr>) ! 0) = Some 77"
    by (metis option.distinct(1))
  with ev ev' before show ?thesis by blast
qed

subsection \<open>The landing check of the commit message\<close>

text \<open>
  Claim C9 as stated: the landing check of message B is evaluated as that of message A is,
  for every record whose stage-5 task was claimed and whose landing is not confirmed. It
  fails: for a record whose commit message task 105 is claimed but has not completed
  (\<open>after_commit_msg\<close> is false), with the message executed on chain and the sector info
  present, the check of message B does nothing and the record is not marked; the check of
  message A, for a record whose precommit message task is claimed but has not completed,
  does record the landing.
\<close>

theorem commit_landing_symmetric_counterexample:
  "TaskCommitMsg (scan_pollTask (committing_row 1 1 False)) = Some 105
   \<and> \<not> AfterCommitMsgSuccess (scan_pollTask (committing_row 1 1 False))
   \<and> joined_waits (landed_env 1000) commit_msg_cid 1 1 [committing_row 1 1 False] \<noteq> []
   \<and> StateSectorGetInfo (landed_env 1000) 1 1 = Inr True
   \<and> pollCommitMsgLanded (landed_env 1000) (scan_pollTask (committing_row 1 1 False))
       (start [committing_row 1 1 False]) = (None, start [committing_row 1 1 False])
   \<and> \<not> after_commit_msg_success (committing_row 1 1 False)
   \<and> pollPrecommitMsgLanded (landed_env 1000)
       (scan_pollTask ((submitted_row 1 1)\<lparr>after_precommit_msg := False\<rparr>))
       (start [(submitted_row 1 1)\<lparr>after_precommit_msg := False\<rparr>])
     = (None, (start [(submitted_row 1 1)\<lparr>after_precommit_msg := False, seed_epoch := Some 250,
          precommit_msg_tsk := Some ''tsk'', after_precommit_msg_success := True\<rparr>])\<lparr>db_ops := 2\<rparr>)"
  by (simp add: poller_defs example_defs)

text \<open>
  Claim C9 as amended. The landing check of message B is evaluated for a record whose
  stage-5 task has completed (\<open>after_commit_msg\<close>), whose landing is not confirmed, and
  only while the handle of the commit-message stage is set; otherwise it does nothing.
  When it is evaluated and the data store answers: without a confirmed execution nothing
  changes; on a confirmed execution it fetches the sector info, logs and leaves the table
  as it is if the info is absent, and marks the record terminal-success (with the tipset of
  the execution) if it is present.
\<close>

theorem commit_landing_check_guarded:
  assumes "pollCommitMsgLanded e task s = (err, s')"
  shows "(\<not> (AfterCommitMsg task \<and> \<not> AfterCommitMsgSuccess task \<and> IsSet e pollerCommitMsg) \<longrightarrow>
            err = None \<and> s' = s)
     \<and> (AfterCommitMsg task \<and> \<not> AfterCommitMsgSuccess task \<and> IsSet e pollerCommitMsg
          \<and> db_fault e (db_ops s) = None \<and> db_fault e (Suc (db_ops s)) = None \<longrightarrow>
          (joined_waits e commit_msg_cid (SpID task) (SectorNumber task) (table s) = [] \<longrightarrow>
              err = None \<and> table s' = table s \<and> logged s' = logged s)
        \<and> (joined_waits e commit_msg_cid (SpID task) (SectorNumber task) (table s) \<noteq> [] \<longrightarrow>
            (\<forall>maddr. NewIDAddress e (SpID task) = Inr maddr \<longrightarrow>
               (StateSectorGetInfo e maddr (SectorNumber task) = Inr False \<longrightarrow>
                  err = None \<and> table s' = table s
                \<and> logged s' = logged s @ [Errorw ''todo handle missing sector info (not found after cron)'' None])
             \<and> (StateSectorGetInfo e maddr (SectorNumber task) = Inr True \<longrightarrow>
                  err = None \<and> logged s' = logged s
                \<and> table s' =
                    map (\<lambda>r. if sp_id r = SpID task \<and> sector_number r = SectorNumber task
                                \<and> after_commit_msg_success r = False
                             then r\<lparr>after_commit_msg_success := True,
                                    commit_msg_tsk := Some (ExecutedTskCID (hd
                                      (joined_waits e commit_msg_cid (SpID task) (SectorNumber task) (table s))))\<rparr>
                             else r) (table s)))))"
proof (cases "AfterCommitMsg task \<and> \<not> AfterCommitMsgSuccess task \<and> IsSet e pollerCommitMsg")
  case False
  with assms show ?thesis by (auto simp: pollCommitMsgLanded_def)
next
  case True
  show ?thesis
  proof (cases "db_fault e (db_ops s) = None \<and> db_fault e (Suc (db_ops s)) = None")
    case False
    with True show ?thesis by blast
  next
    case nf: True
    then show ?thesis
      using assms True
      by (auto simp: pollCommitMsgLanded_def Select_waits_def Exec_def Let_def
          split: sum.splits bool.splits if_splits)
  qed
qed

theorem commit_landing_check_guarded_witness:
  "pollCommitMsgLanded (landed_env 1000) (scan_pollTask (committing_row 1 1 True))
     (start [committing_row 1 1 True])
   = (None, (start [(committing_row 1 1 True)\<lparr>after_commit_msg_success := True,
        commit_msg_tsk := Some ''tsk''\<rparr>])\<lparr>db_ops := 2\<rparr>)
   \<and> table ((start [(committing_row 1 1 True)\<lparr>after_commit_msg_success := True,
        commit_msg_tsk := Some ''tsk''\<rparr>])\<lparr>db_ops := 2\<rparr>)
     = map (\<lambda>r. if sp_id r = 1 \<and> sector_number r = 1 \<and> after_commit_msg_success r = False
                then r\<lparr>after_commit_msg_success := True,
                       commit_msg_tsk := Some (ExecutedTskCID (hd
                          (joined_waits (landed_env 1000) commit_msg_cid 1 1 [committing_row 1 1 True])))\<rparr>
                else r) [committing_row 1 1 True]"
proof -
  let ?e = "landed_env 1000" and ?t = "scan_pollTask (committing_row 1 1 True)"
  let ?s = "start [committing_row 1 1 True]"
  let ?s' = "(start [(committing_row 1 1 True)\<lparr>after_commit_msg_success := True,
        commit_msg_tsk := Some ''tsk''\<rparr>])\<lparr>db_ops := 2\<rparr>"
  have ev: "pollCommitMsgLanded ?e ?t ?s = (None, ?s')"
    by (simp add: poller_defs example_defs)
  have g: "AfterCommitMsg ?t \<and> \<not> AfterCommitMsgSuccess ?t \<and> IsSet ?e pollerCommitMsg
          \<and> db_fault ?e (db_ops ?s) = None \<and> db_fault ?e (Suc (db_ops ?s)) = None"
    by (simp add: poller_defs example_defs)
  have j: "joined_waits ?e commit_msg_cid (SpID ?t) (SectorNumber ?t) (table ?s) \<noteq> []"
    by (simp add: poller_defs example_defs)
  have a: "NewIDAddress ?e (SpID ?t) = Inr 1" "StateSectorGetInfo ?e 1 (SectorNumber ?t) = Inr True"
    by (simp_all add: poller_defs example_defs)
  have k: "SpID ?t = 1" "SectorNumber ?t = 1" "table ?s = [committing_row 1 1 True]"
    by (simp_all add: poller_defs example_defs)
  from commit_landing_check_guarded [OF ev] g j a
  have "table ?s' =
      map (\<lambda>r. if sp_id r = SpID ?t \<and> sector_number r = SectorNumber ?t
                                \<and> after_commit_msg_success r = False
                             then r\<lparr>after_commit_msg_success := True,
                                    commit_msg_tsk := Some (ExecutedTskCID (hd
                                      (joined_waits ?e commit_msg_cid (SpID ?t) (SectorNumber ?t) (table ?s))))\<rparr>
                             else r) (table ?s)"
    by blast
  then show ?thesis using ev unfolding k by blast
qed

subsection \<open>A second tick after a first\<close>

text \<open>With unique keys, a statement of the poller for a record touches the row of the record only.\<close>

lemma filter_only_at:
  assumes "i < length xs" and "\<And>j. j < length xs \<Longrightarrow> j \<noteq> i \<Longrightarrow> \<not> P (xs ! j)"
  shows "filter P xs = (if P (xs ! i) then [xs ! i] else [])"
proof -
  have xs: "xs = take i xs @ xs ! i # drop (Suc i) xs"
    using assms(1) by (rule id_take_nth_drop)
  have a: "filter P (take i xs) = []"
    using assms by (auto simp: filter_empty_conv in_set_conv_nth)
  have b: "filter P (drop (Suc i) xs) = []"
    using assms by (auto simp: filter_empty_conv in_set_conv_nth)
  have "filter P xs = filter P (take i xs @ xs ! i # drop (Suc i) xs)"
    using xs by simp
  then show ?thesis using a b by simp
qed

lemma map_only_at:
  assumes "i < length xs" and "\<And>j. j < length xs \<Longrightarrow> j \<noteq> i \<Longrightarrow> \<not> P (xs ! j)"
  shows "map (\<lambda>x. if P x then f x else x) xs = xs[i := if P (xs ! i) then f (xs ! i) else xs ! i]"
  using assms by (intro nth_equalityI) (auto simp: nth_list_update)

lemma distinct_key_other:
  assumes "distinct (map key tbl)" "i < length tbl" "j < length tbl" "j \<noteq> i"
  shows "key (tbl ! j) \<noteq> key (tbl ! i)"
  using assms by (metis length_map nth_eq_iff_index_eq nth_map)

lemma Exec_keyed:
  assumes o: "own_row s i task" and nf: "db_fault e (db_ops s) = None"
  shows "Exec e (\<lambda>r. sp_id r = SpID task \<and> sector_number r = SectorNumber task \<and> c r) st s =
     (Inr (if c (table s ! i) then 1 else 0),
      s\<lparr>table := (table s)[i := if c (table s ! i) then st (table s ! i) else table s ! i],
        db_ops := Suc (db_ops s)\<rparr>)"
proof -
  let ?P = "\<lambda>r. sp_id r = SpID task \<and> sector_number r = SectorNumber task \<and> c r"
  from o have d: "distinct (map key (table s))" and i: "i < length (table s)"
    and k: "key (table s ! i) = (SpID task, SectorNumber task)"
    by (simp_all add: own_row_def)
  have other: "\<not> ?P (table s ! j)" if "j < length (table s)" "j \<noteq> i" for j
    using distinct_key_other [OF d i that] k by (auto simp: key_def)
  have here: "?P (table s ! i) = c (table s ! i)"
    using k by (simp add: key_def)
  have f: "filter ?P (table s) = (if c (table s ! i) then [table s ! i] else [])"
    using filter_only_at [of i "table s" ?P, OF i other] here by simp
  have m: "map (\<lambda>r. if ?P r then st r else r) (table s)
      = (table s)[i := if c (table s ! i) then st (table s ! i) else table s ! i]"
    using map_only_at [of i "table s" ?P st, OF i other] here by simp
  show ?thesis
    unfolding Exec_def using nf f m by simp
qed

lemma own_row_update:
  assumes "own_row s i task" "table s' = (table s)[i := r']" "key r' = key (table s ! i)"
  shows "own_row s' i task"
proof -
  have "map key ((table s)[i := r']) = map key (table s)"
    using assms(1,3) by (simp add: own_row_def map_update list_update_same_conv)
  with assms show ?thesis by (simp add: own_row_def)
qed

lemma AddTaskFunc_keyed:
  assumes o: "own_row s i task" and nf: "\<forall>n. db_fault e n = None"
   and extra: "\<And>tid tx. extra tid tx =
       (case Exec e (\<lambda>r. sp_id r = SpID task \<and> sector_number r = SectorNumber task \<and> c r) (st tid) tx of
          (Inl err, tx') \<Rightarrow> ((False, Some (Errorf m err)), tx')
        | (Inr n, tx') \<Rightarrow> if n \<noteq> 1 then ((False, Some (ExpectedOneRow n)), tx') else ((True, None), tx'))"
  shows "table (AddTaskFunc stg task extra s)
      = (table s)[i := if c (table s ! i) then st (next_id s) (table s ! i) else table s ! i]"
proof -
  let ?s0 = "s\<lparr>next_id := next_id s + 1, attempts := attempts s @ [(stg, SpID task, SectorNumber task)]\<rparr>"
  have o0: "own_row ?s0 i task" using o by (simp add: own_row_def)
  have nf0: "db_fault e (db_ops ?s0) = None" using nf by simp
  show ?thesis
    unfolding AddTaskFunc_def Let_def extra Exec_keyed [OF o0 nf0]
    by (simp add: list_update_same_conv)
qed

lemma pollStartSDR_keyed:
  assumes "own_row s i task" "\<forall>n. db_fault e n = None" "pollStartSDR e task s = Done s'"
  shows "\<exists>tid. table s' = (table s)[i :=
     if readySDR e task \<and> task_id_sdr (table s ! i) = None
     then (table s ! i)\<lparr>task_id_sdr := Some tid\<rparr> else table s ! i]"
proof (cases "readySDR e task")
  case False
  with assms show ?thesis by (simp add: pollStartSDR_def)
next
  case True
  with assms(3) have s': "s' = AddTaskFunc pollerSDR task (pollStartSDR_claim e task) s"
    by (simp add: pollStartSDR_def Val_def split: if_splits)
  show ?thesis
    unfolding s'
    using AddTaskFunc_keyed [OF assms(1,2), where extra = "pollStartSDR_claim e task"
        and c = "\<lambda>r. task_id_sdr r = None" and st = "\<lambda>tid r. r\<lparr>task_id_sdr := Some tid\<rparr>"
        and stg = pollerSDR] True
    by (auto simp: pollStartSDR_claim_def)
qed


lemma pollStartSDRTrees_keyed:
  assumes "own_row s i task" "\<forall>n. db_fault e n = None" "pollStartSDRTrees e task s = Done s'"
  shows "\<exists>tid. table s' = (table s)[i :=
     if readySDRTrees e task \<and> after_sdr (table s ! i) = True \<and> task_id_tree_d (table s ! i) = None
        \<and> task_id_tree_c (table s ! i) = None \<and> task_id_tree_r (table s ! i) = None
     then (table s ! i)\<lparr>task_id_tree_d := Some tid, task_id_tree_c := Some tid, task_id_tree_r := Some tid\<rparr>
     else table s ! i]"
proof (cases "readySDRTrees e task")
  case False
  with assms show ?thesis by (simp add: pollStartSDRTrees_def)
next
  case True
  with assms(3) have s': "s' = AddTaskFunc pollerTrees task (pollStartSDRTrees_claim e task) s"
    by (simp add: pollStartSDRTrees_def Val_def split: if_splits)
  show ?thesis
    unfolding s'
    using AddTaskFunc_keyed [OF assms(1,2), where extra = "pollStartSDRTrees_claim e task"
        and c = "\<lambda>r. after_sdr r = True \<and> task_id_tree_d r = None \<and> task_id_tree_c r = None \<and> task_id_tree_r r = None"
        and st = "\<lambda>tid r. r\<lparr>task_id_tree_d := Some tid, task_id_tree_c := Some tid, task_id_tree_r := Some tid\<rparr>"
        and stg = pollerTrees] True
    by (auto simp: pollStartSDRTrees_claim_def)
qed

lemma pollStartPrecommitMsg_keyed:
  assumes "own_row s i task" "\<forall>n. db_fault e n = None" "pollStartPrecommitMsg e task s = Done s'"
  shows "\<exists>tid. table s' = (table s)[i :=
     if readyPrecommitMsg task \<and> task_id_precommit_msg (table s ! i) = None
        \<and> after_tree_r (table s ! i) = True \<and> after_tree_d (table s ! i) = True
     then (table s ! i)\<lparr>task_id_precommit_msg := Some tid\<rparr> else table s ! i]"
proof (cases "readyPrecommitMsg task")
  case False
  with assms show ?thesis by (simp add: pollStartPrecommitMsg_def)
next
  case True
  with assms(3) have s': "s' = AddTaskFunc pollerPrecommitMsg task (pollStartPrecommitMsg_claim e task) s"
    by (simp add: pollStartPrecommitMsg_def Val_def split: if_splits)
  show ?thesis
    unfolding s'
    using AddTaskFunc_keyed [OF assms(1,2), where extra = "pollStartPrecommitMsg_claim e task"
        and c = "\<lambda>r. task_id_precommit_msg r = None \<and> after_tree_r r = True \<and> after_tree_d r = True"
        and st = "\<lambda>tid r. r\<lparr>task_id_precommit_msg := Some tid\<rparr>"
        and stg = pollerPrecommitMsg] True
    by (auto simp: pollStartPrecommitMsg_claim_def)
qed

lemma pollStartPoRep_keyed:
  assumes "own_row s i task" "\<forall>n. db_fault e n = None" "pollStartPoRep e task ts s = Done s'"
  shows "\<exists>tid. table s' = (table s)[i :=
     if readyPoRep e task ts \<and> task_id_porep (table s ! i) = None
     then (table s ! i)\<lparr>task_id_porep := Some tid\<rparr> else table s ! i]"
proof (cases "readyPoRep e task ts")
  case False
  with assms show ?thesis by (simp add: pollStartPoRep_def)
next
  case True
  with assms(3) have s': "s' = AddTaskFunc pollerPoRep task (pollStartPoRep_claim e task) s"
    by (simp add: pollStartPoRep_def Val_def split: if_splits)
  show ?thesis
    unfolding s'
    using AddTaskFunc_keyed [OF assms(1,2), where extra = "pollStartPoRep_claim e task"
        and c = "\<lambda>r. task_id_porep r = None"
        and st = "\<lambda>tid r. r\<lparr>task_id_porep := Some tid\<rparr>"
        and stg = pollerPoRep] True
    by (auto simp: pollStartPoRep_claim_def)
qed

lemma pollStartCommitMsg_keyed:
  assumes "own_row s i task" "\<forall>n. db_fault e n = None" "pollStartCommitMsg e task s = Done s'"
  shows "\<exists>tid. table s' = (table s)[i :=
     if readyCommitMsg e task \<and> task_id_commit_msg (table s ! i) = None
     then (table s ! i)\<lparr>task_id_commit_msg := Some tid\<rparr> else table s ! i]"
proof (cases "readyCommitMsg e task")
  case False
  with assms show ?thesis by (simp add: pollStartCommitMsg_def)
next
  case True
  with assms(3) have s': "s' = AddTaskFunc pollerCommitMsg task (pollStartCommitMsg_claim e task) s"
    by (simp add: pollStartCommitMsg_def Val_def split: if_splits)
  show ?thesis
    unfolding s'
    using AddTaskFunc_keyed [OF assms(1,2), where extra = "pollStartCommitMsg_claim e task"
        and c = "\<lambda>r. task_id_commit_msg r = None"
        and st = "\<lambda>tid r. r\<lparr>task_id_commit_msg := Some tid\<rparr>"
        and stg = pollerCommitMsg] True
    by (auto simp: pollStartCommitMsg_claim_def)
qed

lemma pollPrecommitMsgLanded_keyed:
  assumes o: "own_row s i task" and nf: "\<forall>n. db_fault e n = None"
  shows "table (mustPoll (pollPrecommitMsgLanded e task s)) = table s
     \<or> (seed_epoch (table s ! i) = None
        \<and> (\<exists>randHeight tsk. table (mustPoll (pollPrecommitMsgLanded e task s)) = (table s)[i :=
             (table s ! i)\<lparr>seed_epoch := Some randHeight, precommit_msg_tsk := Some tsk,
                           after_precommit_msg_success := True\<rparr>]))"
proof -
  let ?s1 = "s\<lparr>db_ops := Suc (db_ops s)\<rparr>"
  have o1: "own_row ?s1 i task" using o by (simp add: own_row_def)
  have nf1: "db_fault e (db_ops ?s1) = None" using nf by simp
  show ?thesis
    unfolding pollPrecommitMsgLanded_def Select_waits_def Let_def
    using Exec_keyed [OF o1 nf1, where c = "\<lambda>r. seed_epoch r = None"] nf
    by (auto simp: mustPoll_def list_update_same_conv split: sum.splits option.splits)
qed

lemma pollCommitMsgLanded_keyed:
  assumes o: "own_row s i task" and nf: "\<forall>n. db_fault e n = None"
  shows "table (mustPoll (pollCommitMsgLanded e task s)) = table s
     \<or> (\<exists>tsk. table (mustPoll (pollCommitMsgLanded e task s)) = (table s)[i :=
             (table s ! i)\<lparr>after_commit_msg_success := True, commit_msg_tsk := Some tsk\<rparr>])"
proof -
  let ?s1 = "s\<lparr>db_ops := Suc (db_ops s)\<rparr>"
  have o1: "own_row ?s1 i task" using o by (simp add: own_row_def)
  have nf1: "db_fault e (db_ops ?s1) = None" using nf by simp
  show ?thesis
    unfolding pollCommitMsgLanded_def Select_waits_def Let_def
    using Exec_keyed [OF o1 nf1, where c = "\<lambda>r. after_commit_msg_success r = False"] nf
    by (auto simp: mustPoll_def list_update_same_conv split: sum.splits option.splits bool.splits)
qed

lemma row_settled:
  assumes t: "t = scan_pollTask r"
    and r1: "r1 = (if readySDR e t \<and> task_id_sdr r = None then r\<lparr>task_id_sdr := Some t1\<rparr> else r)"
    and r2: "r2 = (if readySDRTrees e t \<and> after_sdr r1 = True \<and> task_id_tree_d r1 = None
        \<and> task_id_tree_c r1 = None \<and> task_id_tree_r r1 = None
     then r1\<lparr>task_id_tree_d := Some t2, task_id_tree_c := Some t2, task_id_tree_r := Some t2\<rparr>
     else r1)"
    and r3: "r3 = (if readyPrecommitMsg t \<and> task_id_precommit_msg r2 = None
        \<and> after_tree_r r2 = True \<and> after_tree_d r2 = True
     then r2\<lparr>task_id_precommit_msg := Some t3\<rparr> else r2)"
    and r4: "r4 = r3 \<or> (seed_epoch r3 = None
        \<and> r4 = r3\<lparr>seed_epoch := Some randHeight, precommit_msg_tsk := Some tsk,
                           after_precommit_msg_success := True\<rparr>)"
    and r5: "r5 = (if readyPoRep e t h \<and> task_id_porep r4 = None
     then r4\<lparr>task_id_porep := Some t5\<rparr> else r4)"
    and r6: "r6 = (if readyCommitMsg e t \<and> task_id_commit_msg r5 = None
     then r5\<lparr>task_id_commit_msg := Some t6\<rparr> else r5)"
    and r7: "r7 = r6 \<or> r7 = r6\<lparr>after_commit_msg_success := True, commit_msg_tsk := Some tsk'\<rparr>"
  shows "claims_settled e h r r7"
proof -
  have k1: "key r1 = key r" "failed r1 = failed r" using r1 by (auto simp: key_def)
  have k2: "key r2 = key r1" "failed r2 = failed r1" using r2 by (auto simp: key_def)
  have k3: "key r3 = key r2" "failed r3 = failed r2" using r3 by (auto simp: key_def)
  have k4: "key r4 = key r3" "failed r4 = failed r3" using r4 by (auto simp: key_def)
  have k5: "key r5 = key r4" "failed r5 = failed r4" using r5 by (auto simp: key_def)
  have k6: "key r6 = key r5" "failed r6 = failed r5" using r6 by (auto simp: key_def)
  have k7: "key r7 = key r6" "failed r7 = failed r6" using r7 by (auto simp: key_def)
  have k: "key r7 = key r" "failed r7 = failed r"
    using k1 k2 k3 k4 k5 k6 k7 by simp_all
  have sdr2: "task_id_sdr r2 = task_id_sdr r1" using r2 by auto
  have sdr3: "task_id_sdr r3 = task_id_sdr r2" using r3 by auto
  have sdr4: "task_id_sdr r4 = task_id_sdr r3" using r4 by auto
  have sdr5: "task_id_sdr r5 = task_id_sdr r4" using r5 by auto
  have sdr6: "task_id_sdr r6 = task_id_sdr r5" using r6 by auto
  have sdr7: "task_id_sdr r7 = task_id_sdr r6" using r7 by auto
  have sdr: "task_id_sdr r7 = task_id_sdr r1"
    using sdr2 sdr3 sdr4 sdr5 sdr6 sdr7 by simp
  have tr3: "task_id_tree_d r3 = task_id_tree_d r2" "task_id_tree_c r3 = task_id_tree_c r2"
      "task_id_tree_r r3 = task_id_tree_r r2" using r3 by auto
  have tr4: "task_id_tree_d r4 = task_id_tree_d r3" "task_id_tree_c r4 = task_id_tree_c r3"
      "task_id_tree_r r4 = task_id_tree_r r3" using r4 by auto
  have tr5: "task_id_tree_d r5 = task_id_tree_d r4" "task_id_tree_c r5 = task_id_tree_c r4"
      "task_id_tree_r r5 = task_id_tree_r r4" using r5 by auto
  have tr6: "task_id_tree_d r6 = task_id_tree_d r5" "task_id_tree_c r6 = task_id_tree_c r5"
      "task_id_tree_r r6 = task_id_tree_r r5" using r6 by auto
  have tr7: "task_id_tree_d r7 = task_id_tree_d r6" "task_id_tree_c r7 = task_id_tree_c r6"
      "task_id_tree_r r7 = task_id_tree_r r6" using r7 by auto
  have trees: "task_id_tree_d r7 = task_id_tree_d r2" "task_id_tree_c r7 = task_id_tree_c r2"
      "task_id_tree_r r7 = task_id_tree_r r2"
    using tr3 tr4 tr5 tr6 tr7 by simp_all
  have pc4: "task_id_precommit_msg r4 = task_id_precommit_msg r3" using r4 by auto
  have pc5: "task_id_precommit_msg r5 = task_id_precommit_msg r4" using r5 by auto
  have pc6: "task_id_precommit_msg r6 = task_id_precommit_msg r5" using r6 by auto
  have pc7: "task_id_precommit_msg r7 = task_id_precommit_msg r6" using r7 by auto
  have pc: "task_id_precommit_msg r7 = task_id_precommit_msg r3"
    using pc4 pc5 pc6 pc7 by simp
  have po6: "task_id_porep r6 = task_id_porep r5" using r6 by auto
  have po7: "task_id_porep r7 = task_id_porep r6" using r7 by auto
  have porep: "task_id_porep r7 = task_id_porep r5" using po6 po7 by simp
  have cm: "task_id_commit_msg r7 = task_id_commit_msg r6" using r7 by auto
  have c1: "after_sdr r1 = after_sdr r" "after_tree_r r1 = after_tree_r r" "after_tree_d r1 = after_tree_d r"
     "after_porep r1 = after_porep r" "porep_proof r1 = porep_proof r"
     "task_id_tree_d r1 = task_id_tree_d r" "task_id_tree_c r1 = task_id_tree_c r"
     "task_id_tree_r r1 = task_id_tree_r r" "task_id_precommit_msg r1 = task_id_precommit_msg r"
     "task_id_porep r1 = task_id_porep r" "task_id_commit_msg r1 = task_id_commit_msg r"
     "seed_epoch r1 = seed_epoch r" "after_precommit_msg_success r1 = after_precommit_msg_success r"
    using r1 by auto
  have c2: "after_sdr r2 = after_sdr r1" "after_tree_r r2 = after_tree_r r1" "after_tree_d r2 = after_tree_d r1"
     "after_porep r2 = after_porep r1" "porep_proof r2 = porep_proof r1"
     "task_id_precommit_msg r2 = task_id_precommit_msg r1"
     "task_id_porep r2 = task_id_porep r1" "task_id_commit_msg r2 = task_id_commit_msg r1"
     "seed_epoch r2 = seed_epoch r1" "after_precommit_msg_success r2 = after_precommit_msg_success r1"
    using r2 by auto
  have c3: "after_sdr r3 = after_sdr r2" "after_tree_r r3 = after_tree_r r2" "after_tree_d r3 = after_tree_d r2"
     "after_porep r3 = after_porep r2" "porep_proof r3 = porep_proof r2"
     "task_id_porep r3 = task_id_porep r2" "task_id_commit_msg r3 = task_id_commit_msg r2"
     "seed_epoch r3 = seed_epoch r2" "after_precommit_msg_success r3 = after_precommit_msg_success r2"
    using r3 by auto
  have c4: "after_sdr r4 = after_sdr r3" "after_tree_r r4 = after_tree_r r3" "after_tree_d r4 = after_tree_d r3"
     "after_porep r4 = after_porep r3" "porep_proof r4 = porep_proof r3"
     "task_id_porep r4 = task_id_porep r3" "task_id_commit_msg r4 = task_id_commit_msg r3"
    using r4 by auto
  have c5: "after_sdr r5 = after_sdr r4" "after_tree_r r5 = after_tree_r r4" "after_tree_d r5 = after_tree_d r4"
     "after_porep r5 = after_porep r4" "porep_proof r5 = porep_proof r4"
     "task_id_commit_msg r5 = task_id_commit_msg r4"
     "seed_epoch r5 = seed_epoch r4" "after_precommit_msg_success r5 = after_precommit_msg_success r4"
    using r5 by auto
  have c6: "after_sdr r6 = after_sdr r5" "after_tree_r r6 = after_tree_r r5" "after_tree_d r6 = after_tree_d r5"
     "after_porep r6 = after_porep r5" "porep_proof r6 = porep_proof r5"
     "seed_epoch r6 = seed_epoch r5" "after_precommit_msg_success r6 = after_precommit_msg_success r5"
    using r6 by auto
  have c7: "after_sdr r7 = after_sdr r6" "after_tree_r r7 = after_tree_r r6" "after_tree_d r7 = after_tree_d r6"
     "after_porep r7 = after_porep r6" "porep_proof r7 = porep_proof r6"
     "seed_epoch r7 = seed_epoch r6" "after_precommit_msg_success r7 = after_precommit_msg_success r6"
    using r7 by auto
  have same: "after_sdr r7 = after_sdr r" "after_tree_r r7 = after_tree_r r" "after_tree_d r7 = after_tree_d r"
     "after_porep r7 = after_porep r" "porep_proof r7 = porep_proof r"
    using c1 c2 c3 c4 c5 c6 c7 by simp_all
  have pre: "task_id_tree_d r1 = task_id_tree_d r" "task_id_tree_c r1 = task_id_tree_c r"
     "task_id_tree_r r1 = task_id_tree_r r" "after_sdr r1 = after_sdr r"
     "task_id_precommit_msg r2 = task_id_precommit_msg r" "after_tree_r r2 = after_tree_r r"
     "after_tree_d r2 = after_tree_d r"
     "task_id_porep r4 = task_id_porep r"
     "task_id_commit_msg r5 = task_id_commit_msg r"
    using c1 c2 c3 c4 c5 by simp_all
  have a: "\<not> readySDR e (scan_pollTask r7)"
    using sdr r1 t by (auto simp: readySDR_def scan_pollTask_def)
  have b: "\<not> readySDRTrees e (scan_pollTask r7)"
    using trees same pre r2 t by (auto simp: readySDRTrees_def scan_pollTask_def)
  have c: "\<not> readyPrecommitMsg (scan_pollTask r7)"
    using pc same pre r3 t by (auto simp: readyPrecommitMsg_def scan_pollTask_def)
  have d: "\<not> readyCommitMsg e (scan_pollTask r7)"
    using cm same pre r6 t by (auto simp: readyCommitMsg_def scan_pollTask_def)
  have seed: "seed_epoch r3 = seed_epoch r" "after_precommit_msg_success r3 = after_precommit_msg_success r"
      "seed_epoch r7 = seed_epoch r4" "after_precommit_msg_success r7 = after_precommit_msg_success r4"
    using c1 c2 c3 c5 c6 c7 by simp_all
  have f: "seed_epoch r = None \<and> seed_epoch r7 \<noteq> None" if rd: "readyPoRep e (scan_pollTask r7) h"
  proof (rule ccontr)
    assume n: "\<not> (seed_epoch r = None \<and> seed_epoch r7 \<noteq> None)"
    from rd have s7: "seed_epoch r7 \<noteq> None" and a7: "after_precommit_msg_success r7"
      and p7: "task_id_porep r7 = None"
      by (auto simp: readyPoRep_def scan_pollTask_def split: option.splits)
    from n s7 have sr: "seed_epoch r \<noteq> None" by simp
    with r4 seed have r43: "r4 = r3" by auto
    with seed a7 have "after_precommit_msg_success r" by simp
    moreover from r43 seed have "seed_epoch r7 = seed_epoch r" by simp
    moreover from p7 porep r5 pre have "task_id_porep r = None" by (auto split: if_splits)
    ultimately have "readyPoRep e t h"
      using rd t by (auto simp: readyPoRep_def scan_pollTask_def split: option.splits)
    with r5 pre \<open>task_id_porep r = None\<close> have "task_id_porep r5 \<noteq> None" by simp
    with p7 porep show False by simp
  qed
  show ?thesis
    unfolding claims_settled_def using k a b c d f by blast
qed

lemma poll_task_own_row:
  assumes o: "own_row s i task" and nf: "\<forall>n. db_fault e n = None"
    and snap: "scan_pollTask (table s ! i) = task"
    and pt: "poll_task e task h s = Done s'"
  shows "\<exists>r'. table s' = (table s)[i := r'] \<and> claims_settled e h (table s ! i) r'"
  using pt
proof (cases rule: poll_task_stages)
  case (1 s1 s2 s3 s5 s6)
  let ?r = "table s ! i"
  have i: "i < length (table s)" using o by (simp add: own_row_def)
  from pollStartSDR_keyed [OF o nf 1(1)] obtain t1 r1 where
    r1: "r1 = (if readySDR e task \<and> task_id_sdr ?r = None then ?r\<lparr>task_id_sdr := Some t1\<rparr> else ?r)"
    and s1: "table s1 = (table s)[i := r1]" by blast
  have o1: "own_row s1 i task" using own_row_update [OF o s1] r1 by (auto simp: key_def)
  have n1: "table s1 ! i = r1" using s1 i by simp
  from pollStartSDRTrees_keyed [OF o1 nf 1(2)] obtain t2 r2 where
    r2: "r2 = (if readySDRTrees e task \<and> after_sdr r1 = True \<and> task_id_tree_d r1 = None
        \<and> task_id_tree_c r1 = None \<and> task_id_tree_r r1 = None
     then r1\<lparr>task_id_tree_d := Some t2, task_id_tree_c := Some t2, task_id_tree_r := Some t2\<rparr>
     else r1)"
    and s2: "table s2 = (table s1)[i := r2]" unfolding n1 by blast
  have o2: "own_row s2 i task" using own_row_update [OF o1 s2] r2 n1 by (auto simp: key_def)
  have n2: "table s2 ! i = r2" using s2 s1 i by simp
  from pollStartPrecommitMsg_keyed [OF o2 nf 1(3)] obtain t3 r3 where
    r3: "r3 = (if readyPrecommitMsg task \<and> task_id_precommit_msg r2 = None
        \<and> after_tree_r r2 = True \<and> after_tree_d r2 = True
     then r2\<lparr>task_id_precommit_msg := Some t3\<rparr> else r2)"
    and s3: "table s3 = (table s2)[i := r3]" unfolding n2 by blast
  have o3: "own_row s3 i task" using own_row_update [OF o2 s3] r3 n2 by (auto simp: key_def)
  have n3: "table s3 ! i = r3" using s3 s2 s1 i by simp
  let ?s4 = "mustPoll (pollPrecommitMsgLanded e task s3)"
  from pollPrecommitMsgLanded_keyed [OF o3 nf] obtain r4 randHeight tsk where
    r4: "r4 = r3 \<or> (seed_epoch r3 = None
        \<and> r4 = r3\<lparr>seed_epoch := Some randHeight, precommit_msg_tsk := Some tsk,
                           after_precommit_msg_success := True\<rparr>)"
    and s4: "table ?s4 = (table s3)[i := r4]"
    unfolding n3 by (metis list_update_id n3)
  have o4: "own_row ?s4 i task" using own_row_update [OF o3 s4] r4 n3 by (auto simp: key_def)
  have n4: "table ?s4 ! i = r4" using s4 s3 s2 s1 i by simp
  from pollStartPoRep_keyed [OF o4 nf 1(4)] obtain t5 r5 where
    r5: "r5 = (if readyPoRep e task h \<and> task_id_porep r4 = None
     then r4\<lparr>task_id_porep := Some t5\<rparr> else r4)"
    and s5: "table s5 = (table ?s4)[i := r5]" unfolding n4 by blast
  have o5: "own_row s5 i task" using own_row_update [OF o4 s5] r5 n4 by (auto simp: key_def)
  have n5: "table s5 ! i = r5" using s5 s4 s3 s2 s1 i by simp
  from pollStartCommitMsg_keyed [OF o5 nf 1(5)] obtain t6 r6 where
    r6: "r6 = (if readyCommitMsg e task \<and> task_id_commit_msg r5 = None
     then r5\<lparr>task_id_commit_msg := Some t6\<rparr> else r5)"
    and s6: "table s6 = (table s5)[i := r6]" unfolding n5 by blast
  have o6: "own_row s6 i task" using own_row_update [OF o5 s6] r6 n5 by (auto simp: key_def)
  have n6: "table s6 ! i = r6" using s6 s5 s4 s3 s2 s1 i by simp
  from pollCommitMsgLanded_keyed [OF o6 nf] obtain r7 tsk' where
    r7: "r7 = r6 \<or> r7 = r6\<lparr>after_commit_msg_success := True, commit_msg_tsk := Some tsk'\<rparr>"
    and s7: "table s' = (table s6)[i := r7]"
    unfolding n6 1(6) by (metis list_update_id n6)
  have "table s' = (table s)[i := r7]"
    using s7 s6 s5 s4 s3 s2 s1 by simp
  moreover have "claims_settled e h ?r r7"
    by (rule row_settled [OF snap [symmetric] r1 r2 r3 r4 r5 r6 r7])
  ultimately show ?thesis by blast
qed

lemma key_scan: "(SpID (scan_pollTask r), SectorNumber (scan_pollTask r)) = key r"
  by (simp add: scan_pollTask_def key_def)

lemma claims_settled_skipped:
  "failed r \<or> after_commit_msg_success r = True \<Longrightarrow> claims_settled e h r r"
  by (auto simp: claims_settled_def)

lemma distinct_key_index:
  assumes "distinct (map key tbl)" "i < length tbl" "j < length tbl" "key (tbl ! j) = key (tbl ! i)"
  shows "j = i"
  using assms distinct_key_other by blast

lemma poll_loop_settles:
  assumes nf: "\<forall>n. db_fault e n = None" and hd: "\<forall>n. ChainHead e n = Inr h"
  shows "distinct (map key (table s)) \<Longrightarrow>
     distinct (map (\<lambda>t. (SpID t, SectorNumber t)) tasks) \<Longrightarrow>
     (\<forall>t \<in> set tasks. \<exists>i < length (table s). scan_pollTask (table s ! i) = t) \<Longrightarrow>
     poll_loop e tasks s = Done (err, s') \<Longrightarrow>
     length (table s') = length (table s) \<and>
     (\<forall>i < length (table s).
        (key (table s ! i) \<in> (\<lambda>t. (SpID t, SectorNumber t)) ` set tasks \<longrightarrow>
            claims_settled e h (table s ! i) (table s' ! i))
      \<and> (key (table s ! i) \<notin> (\<lambda>t. (SpID t, SectorNumber t)) ` set tasks \<longrightarrow>
            table s' ! i = table s ! i))"
proof (induction tasks arbitrary: s)
  case Nil
  then show ?case by simp
next
  case (Cons t tasks)
  let ?tk = "\<lambda>t. (SpID t, SectorNumber t)"
  from Cons.prems(3) obtain i0 where i0: "i0 < length (table s)"
    and snap: "scan_pollTask (table s ! i0) = t"
    by auto
  have k0: "key (table s ! i0) = ?tk t" using snap key_scan by metis
  have fresh: "?tk t \<notin> ?tk ` set tasks" and dtail: "distinct (map ?tk tasks)"
    using Cons.prems(2) by auto
  have only0: "i = i0" if "i < length (table s)" "key (table s ! i) = ?tk t" for i
    using distinct_key_index [OF Cons.prems(1) i0 that(1)] that(2) k0 by simp
  show ?case
  proof (cases "Failed t")
    case True
    with Cons.prems(4) have l: "poll_loop e tasks s = Done (err, s')" by simp
    have rest: "\<forall>t \<in> set tasks. \<exists>i < length (table s). scan_pollTask (table s ! i) = t"
      using Cons.prems(3) by simp
    note ih = Cons.IH [OF Cons.prems(1) dtail rest l]
    have f0: "failed (table s ! i0)" using True snap by (auto simp: scan_pollTask_def)
    show ?thesis
    proof (intro conjI allI impI)
      show "length (table s') = length (table s)" using ih by simp
    next
      fix i assume i: "i < length (table s)"
        and m: "key (table s ! i) \<in> ?tk ` set (t # tasks)"
      show "claims_settled e h (table s ! i) (table s' ! i)"
      proof (cases "key (table s ! i) \<in> ?tk ` set tasks")
        case True
        with ih i show ?thesis by blast
      next
        case False
        with m have "key (table s ! i) = ?tk t" by auto
        with only0 i have "i = i0" by blast
        moreover from ih i False have "table s' ! i = table s ! i" by blast
        ultimately show ?thesis using f0 by (simp add: claims_settled_skipped)
      qed
    next
      fix i assume i: "i < length (table s)"
        and m: "key (table s ! i) \<notin> ?tk ` set (t # tasks)"
      then have "key (table s ! i) \<notin> ?tk ` set tasks" by auto
      with ih i show "table s' ! i = table s ! i" by blast
    qed
  next
    case False
    from Cons.prems(4) False show ?thesis
    proof (cases rule: poll_loop_step)
      case (head_error x)
      with hd show ?thesis by simp
    next
      case (polled ts s1)
      with hd have ts: "ts = h" by simp
      let ?s0 = "s\<lparr>head_reads := Suc (head_reads s)\<rparr>"
      have o: "own_row ?s0 i0 t"
        using Cons.prems(1) i0 k0 by (simp add: own_row_def)
      from poll_task_own_row [OF o nf _ polled(2) [unfolded ts]] snap
      obtain r' where s1: "table s1 = (table s)[i0 := r']"
        and st: "claims_settled e h (table s ! i0) r'"
        by auto
      have kr: "key r' = key (table s ! i0)" using st by (simp add: claims_settled_def)
      have s1': "table s1 = (table ?s0)[i0 := r']" using s1 by simp
      have kr': "key r' = key (table ?s0 ! i0)" using kr by simp
      have "own_row s1 i0 t"
        by (rule own_row_update [OF o s1' kr'])
      then have d1: "distinct (map key (table s1))"
        by (simp add: own_row_def)
      have len1: "length (table s1) = length (table s)" using s1 by simp
      have other: "table s1 ! i = table s ! i" if "i \<noteq> i0" for i
        using s1 that by simp
      have rest: "\<forall>t' \<in> set tasks. \<exists>i < length (table s1). scan_pollTask (table s1 ! i) = t'"
      proof
        fix t' assume t': "t' \<in> set tasks"
        with Cons.prems(3) obtain j where j: "j < length (table s)"
          and sj: "scan_pollTask (table s ! j) = t'" by auto
        have "key (table s ! j) = ?tk t'" using sj key_scan by metis
        with t' fresh have "key (table s ! j) \<noteq> ?tk t" by force
        with k0 have "j \<noteq> i0" by auto
        with other sj j len1 show "\<exists>i < length (table s1). scan_pollTask (table s1 ! i) = t'"
          by auto
      qed
      note ih = Cons.IH [OF d1 dtail rest polled(3)]
      have ihi: "(key (table s1 ! j) \<in> ?tk ` set tasks \<longrightarrow>
            claims_settled e h (table s1 ! j) (table s' ! j))
        \<and> (key (table s1 ! j) \<notin> ?tk ` set tasks \<longrightarrow> table s' ! j = table s1 ! j)"
        if "j < length (table s)" for j
        using ih that len1 by simp
      show ?thesis
      proof (intro conjI allI impI)
        show "length (table s') = length (table s)" using ih len1 by simp
      next
        fix i assume i: "i < length (table s)"
          and m: "key (table s ! i) \<in> ?tk ` set (t # tasks)"
        show "claims_settled e h (table s ! i) (table s' ! i)"
        proof (cases "i = i0")
          case True
          have "table s1 ! i0 = r'" using s1 i0 by simp
          with kr k0 fresh have "key (table s1 ! i0) \<notin> ?tk ` set tasks" by simp
          with ihi [OF i0] have "table s' ! i0 = table s1 ! i0" by simp
          with \<open>table s1 ! i0 = r'\<close> st True show ?thesis by simp
        next
          case False
          with only0 i have "key (table s ! i) \<noteq> ?tk t" by blast
          with m have "key (table s ! i) \<in> ?tk ` set tasks" by auto
          with ihi [OF i] show ?thesis unfolding other [OF False] by simp
        qed
      next
        fix i assume i: "i < length (table s)"
          and m: "key (table s ! i) \<notin> ?tk ` set (t # tasks)"
        then have n: "key (table s ! i) \<notin> ?tk ` set tasks" and "key (table s ! i) \<noteq> ?tk t"
          by auto
        with k0 have ne: "i \<noteq> i0" by auto
        from ihi [OF i] n show "table s' ! i = table s ! i" unfolding other [OF ne] by simp
      qed
    qed
  qed
qed

lemma poll_settles:
  assumes nf: "\<forall>n. db_fault e n = None" and hd: "\<forall>n. ChainHead e n = Inr h"
    and d: "distinct (map key (table s))" and p: "poll e s = Done (err, s1)"
  shows "length (table s1) = length (table s)
    \<and> (\<forall>i < length (table s). claims_settled e h (table s ! i) (table s1 ! i))"
  using p
proof (cases rule: poll_cases)
  case (select_error x)
  with nf show ?thesis by simp
next
  case looped
  let ?tk = "\<lambda>t. (SpID t, SectorNumber t)"
  let ?rows = "filter (\<lambda>r. after_commit_msg_success r \<noteq> True) (table s)"
  let ?tasks = "map scan_pollTask ?rows"
  let ?s0 = "s\<lparr>db_ops := Suc (db_ops s)\<rparr>"
  have mk: "map ?tk ?tasks = map key ?rows"
    by (simp add: key_scan)
  have d2: "distinct (map ?tk ?tasks)"
    unfolding mk using d by (rule distinct_map_filter)
  have snap: "\<forall>t \<in> set ?tasks. \<exists>i < length (table ?s0). scan_pollTask (table ?s0 ! i) = t"
    by (auto simp: in_set_conv_nth)
  have d0: "distinct (map key (table ?s0))" using d by simp
  note l = poll_loop_settles [OF nf hd d0 d2 snap looped(2)]
  have keys: "key r \<in> ?tk ` set ?tasks \<longleftrightarrow> after_commit_msg_success r \<noteq> True"
    if "r \<in> set (table s)" for r
  proof
    assume "key r \<in> ?tk ` set ?tasks"
    then obtain r' where r': "r' \<in> set (table s)" "after_commit_msg_success r' \<noteq> True" "key r' = key r"
      by (auto simp: key_scan)
    with that d have "r' = r" by (meson distinct_map inj_onD)
    with r' show "after_commit_msg_success r \<noteq> True" by simp
  next
    assume "after_commit_msg_success r \<noteq> True"
    with that have "scan_pollTask r \<in> set ?tasks" by simp
    then have "?tk (scan_pollTask r) \<in> ?tk ` set ?tasks" by (rule imageI)
    then show "key r \<in> ?tk ` set ?tasks" by (simp add: key_scan)
  qed
  show ?thesis
  proof (intro conjI allI impI)
    show "length (table s1) = length (table s)" using l by simp
  next
    fix i assume i: "i < length (table s)"
    then have mem: "table s ! i \<in> set (table s)" by simp
    show "claims_settled e h (table s ! i) (table s1 ! i)"
    proof (cases "after_commit_msg_success (table s ! i) \<noteq> True")
      case True
      with keys [OF mem] l i show ?thesis by simp
    next
      case False
      with keys [OF mem] l i have "table s1 ! i = table s ! i" by simp
      with False show ?thesis by (simp add: claims_settled_skipped)
    qed
  qed
qed

lemma Exec_attempts: "Exec e wh st s = (res, s') \<Longrightarrow> attempts s' = attempts s"
  by (auto simp: Exec_def split: option.splits)

lemma AddTaskFunc_attempts:
  assumes "\<And>tid tx res tx'. extra tid tx = (res, tx') \<Longrightarrow> attempts tx' = attempts tx"
  shows "attempts (AddTaskFunc stg task extra s) = attempts s @ [(stg, SpID task, SectorNumber task)]"
proof -
  let ?s0 = "s\<lparr>next_id := next_id s + 1, attempts := attempts s @ [(stg, SpID task, SectorNumber task)]\<rparr>"
  obtain c err s1 where ex: "extra (next_id s) ?s0 = ((c, err), s1)"
    by (metis prod.exhaust)
  from assms [OF ex] have "attempts s1 = attempts ?s0" .
  then show ?thesis
    using ex by (auto simp: AddTaskFunc_def Let_def)
qed

lemma pollStartPoRep_claim_attempts:
  "pollStartPoRep_claim e task tid tx = (res, tx') \<Longrightarrow> attempts tx' = attempts tx"
  by (auto simp: pollStartPoRep_claim_def split: prod.splits sum.splits if_splits dest: Exec_attempts)

lemma pollPrecommitMsgLanded_attempts:
  "attempts (mustPoll (pollPrecommitMsgLanded e task s)) = attempts s"
  by (auto simp: pollPrecommitMsgLanded_def Select_waits_def mustPoll_def Let_def Exec_def
      split: sum.splits option.splits prod.splits)

lemma pollCommitMsgLanded_attempts:
  "attempts (mustPoll (pollCommitMsgLanded e task s)) = attempts s"
  by (auto simp: pollCommitMsgLanded_def Select_waits_def mustPoll_def Let_def Exec_def
      split: sum.splits option.splits prod.splits bool.splits)

lemma settled_poll_task:
  assumes "\<not> readySDR e t" "\<not> readySDRTrees e t" "\<not> readyPrecommitMsg t" "\<not> readyCommitMsg e t"
  shows "\<exists>s'. poll_task e t h s = Done s'
     \<and> attempts s' = attempts s @ (if readyPoRep e t h then [(pollerPoRep, SpID t, SectorNumber t)] else [])"
proof -
  let ?s4 = "mustPoll (pollPrecommitMsgLanded e t s)"
  have a4: "attempts ?s4 = attempts s" by (rule pollPrecommitMsgLanded_attempts)
  obtain s5 where s5: "pollStartPoRep e t h ?s4 = Done s5"
    and a5: "attempts s5 = attempts ?s4 @ (if readyPoRep e t h then [(pollerPoRep, SpID t, SectorNumber t)] else [])"
  proof (cases "readyPoRep e t h")
    case True
    then have "IsSet e pollerPoRep" by (simp add: readyPoRep_def)
    with True have "pollStartPoRep e t h ?s4 = Done (AddTaskFunc pollerPoRep t (pollStartPoRep_claim e t) ?s4)"
      by (simp add: pollStartPoRep_def Val_def IsSet_def)
    moreover have "attempts (AddTaskFunc pollerPoRep t (pollStartPoRep_claim e t) ?s4)
        = attempts ?s4 @ [(pollerPoRep, SpID t, SectorNumber t)]"
      by (rule AddTaskFunc_attempts) (rule pollStartPoRep_claim_attempts)
    ultimately show ?thesis using True that by simp
  next
    case False
    then have "pollStartPoRep e t h ?s4 = Done ?s4" by (simp add: pollStartPoRep_def)
    with False that show ?thesis by simp
  qed
  have "poll_task e t h s = Done (mustPoll (pollCommitMsgLanded e t s5))"
    using assms s5
    by (simp add: poll_task_def pollStartSDR_def pollStartSDRTrees_def pollStartPrecommitMsg_def
        pollStartCommitMsg_def)
  moreover have "attempts (mustPoll (pollCommitMsgLanded e t s5)) = attempts s5"
    by (rule pollCommitMsgLanded_attempts)
  ultimately show ?thesis using a4 a5 by simp
qed

lemma settled_poll_loop:
  assumes hd: "\<forall>n. ChainHead e n = Inr h"
  shows "(\<forall>t \<in> set tasks. \<not> Failed t \<longrightarrow>
            \<not> readySDR e t \<and> \<not> readySDRTrees e t \<and> \<not> readyPrecommitMsg t \<and> \<not> readyCommitMsg e t) \<Longrightarrow>
     \<exists>s'. poll_loop e tasks s = Done (None, s')
       \<and> attempts s' = attempts s @
           map (\<lambda>t. (pollerPoRep, SpID t, SectorNumber t))
             (filter (\<lambda>t. \<not> Failed t \<and> readyPoRep e t h) tasks)"
proof (induction tasks arbitrary: s)
  case Nil
  then show ?case by simp
next
  case (Cons t tasks)
  show ?case
  proof (cases "Failed t")
    case True
    with Cons.IH [of s] Cons.prems show ?thesis by simp
  next
    case False
    let ?s0 = "s\<lparr>head_reads := Suc (head_reads s)\<rparr>"
    from False Cons.prems
    have q: "\<not> readySDR e t" "\<not> readySDRTrees e t" "\<not> readyPrecommitMsg t" "\<not> readyCommitMsg e t"
      by simp_all
    from settled_poll_task [OF q, of h ?s0] obtain s1 where
      pt: "poll_task e t h ?s0 = Done s1"
      and a1: "attempts s1 = attempts s @ (if readyPoRep e t h then [(pollerPoRep, SpID t, SectorNumber t)] else [])"
      by auto
    from Cons.IH [of s1] Cons.prems obtain s' where
      l: "poll_loop e tasks s1 = Done (None, s')"
      and a: "attempts s' = attempts s1 @
           map (\<lambda>t. (pollerPoRep, SpID t, SectorNumber t))
             (filter (\<lambda>t. \<not> Failed t \<and> readyPoRep e t h) tasks)"
      by auto
    have "poll_loop e (t # tasks) s = Done (None, s')"
      using False hd pt l by simp
    with a a1 False show ?thesis by simp
  qed
qed

text \<open>
  Claim C2 as stated: a second tick right after a first, with nothing changed in between
  but the first tick's own writes, attempts no claim, every claim predicate being false the
  second time. It fails: for a record whose precommit message has been executed on chain
  but whose landing is not recorded yet, the first tick records the landing (seed epoch
  250) after the record was read and attempts no claim; the second tick reads the record
  with the landing recorded, finds the chain height 1000 past the seed epoch plus margin,
  and claims the PoRep stage.
\<close>

theorem second_tick_idle_counterexample:
  "poll (landed_env 1000) (start [submitted_row 1 1])
     = Done (None, (start [(submitted_row 1 1)\<lparr>seed_epoch := Some 250, precommit_msg_tsk := Some ''tsk'',
          after_precommit_msg_success := True\<rparr>]) \<lparr>db_ops := 3, head_reads := 1\<rparr>)
   \<and> poll (landed_env 1000) ((start [(submitted_row 1 1)\<lparr>seed_epoch := Some 250,
          precommit_msg_tsk := Some ''tsk'', after_precommit_msg_success := True\<rparr>])
          \<lparr>db_ops := 3, head_reads := 1\<rparr>)
     = Done (None, (start [(submitted_row 1 1)\<lparr>seed_epoch := Some 250, precommit_msg_tsk := Some ''tsk'',
          after_precommit_msg_success := True, task_id_porep := Some 1\<rparr>])
         \<lparr>db_ops := 5, head_reads := 2, next_id := 2, added := [(1, pollerPoRep)],
           attempts := [(pollerPoRep, 1, 1)]\<rparr>)
   \<and> readyPoRep (landed_env 1000) (scan_pollTask ((submitted_row 1 1)\<lparr>seed_epoch := Some 250,
          precommit_msg_tsk := Some ''tsk'', after_precommit_msg_success := True\<rparr>)) 1000"
  by (simp add: poller_defs example_defs)

text \<open>
  Claim C2 as amended. Let the rows of the table have unique keys, the statements sent to
  the data store succeed, and every read of the chain head give the same height. After a
  first tick that returned, a second tick returns without error; in it the conditions of the
  SDR, tree, precommit-message and commit-message stages are false for every record that
  is loaded and not failed, and the only claims attempted are PoRep claims, one for each
  such record whose PoRep condition holds; that condition can hold only for a record whose
  seed epoch was null before the first tick and was written by it.
\<close>

theorem second_tick_claims_only_new_porep:
  assumes nf: "\<forall>n. db_fault e n = None" and hd: "\<forall>n. ChainHead e n = Inr h"
    and d: "distinct (map key (table s))" and p: "poll e s = Done (err, s1)"
  shows "(\<exists>s2. poll e s1 = Done (None, s2)
       \<and> attempts s2 = attempts s1 @
           map (\<lambda>r. (pollerPoRep, sp_id r, sector_number r))
             (filter (\<lambda>r. after_commit_msg_success r \<noteq> True \<and> \<not> failed r
                         \<and> readyPoRep e (scan_pollTask r) h) (table s1)))
    \<and> length (table s1) = length (table s)
    \<and> (\<forall>i < length (table s).
           \<not> failed (table s1 ! i) \<and> after_commit_msg_success (table s1 ! i) \<noteq> True \<longrightarrow>
             \<not> readySDR e (scan_pollTask (table s1 ! i))
           \<and> \<not> readySDRTrees e (scan_pollTask (table s1 ! i))
           \<and> \<not> readyPrecommitMsg (scan_pollTask (table s1 ! i))
           \<and> \<not> readyCommitMsg e (scan_pollTask (table s1 ! i))
           \<and> (readyPoRep e (scan_pollTask (table s1 ! i)) h \<longrightarrow>
                seed_epoch (table s ! i) = None \<and> seed_epoch (table s1 ! i) \<noteq> None))"
proof -
  note st = poll_settles [OF nf hd d p]
  have len: "length (table s1) = length (table s)" using st by simp
  have all: "\<forall>i < length (table s).
           \<not> failed (table s1 ! i) \<and> after_commit_msg_success (table s1 ! i) \<noteq> True \<longrightarrow>
             \<not> readySDR e (scan_pollTask (table s1 ! i))
           \<and> \<not> readySDRTrees e (scan_pollTask (table s1 ! i))
           \<and> \<not> readyPrecommitMsg (scan_pollTask (table s1 ! i))
           \<and> \<not> readyCommitMsg e (scan_pollTask (table s1 ! i))
           \<and> (readyPoRep e (scan_pollTask (table s1 ! i)) h \<longrightarrow>
                seed_epoch (table s ! i) = None \<and> seed_epoch (table s1 ! i) \<noteq> None)"
    using st unfolding claims_settled_def by blast
  let ?rows = "filter (\<lambda>r. after_commit_msg_success r \<noteq> True) (table s1)"
  let ?tasks = "map scan_pollTask ?rows"
  let ?s0 = "s1\<lparr>db_ops := Suc (db_ops s1)\<rparr>"
  have q: "\<forall>t \<in> set ?tasks. \<not> Failed t \<longrightarrow>
            \<not> readySDR e t \<and> \<not> readySDRTrees e t \<and> \<not> readyPrecommitMsg t \<and> \<not> readyCommitMsg e t"
  proof (intro ballI impI)
    fix t assume t: "t \<in> set ?tasks" and nfl: "\<not> Failed t"
    then obtain r where r: "r \<in> set (table s1)" "after_commit_msg_success r \<noteq> True" "t = scan_pollTask r"
      by auto
    from r(1) obtain i where i: "i < length (table s1)" "table s1 ! i = r"
      by (auto simp: in_set_conv_nth)
    from nfl r(3) have "\<not> failed r" by (simp add: scan_pollTask_def)
    with all i r len
    show "\<not> readySDR e t \<and> \<not> readySDRTrees e t \<and> \<not> readyPrecommitMsg t \<and> \<not> readyCommitMsg e t"
      by auto
  qed
  from settled_poll_loop [OF hd q, of ?s0] obtain s2 where
    l: "poll_loop e ?tasks ?s0 = Done (None, s2)"
    and a: "attempts s2 = attempts ?s0 @
           map (\<lambda>t. (pollerPoRep, SpID t, SectorNumber t))
             (filter (\<lambda>t. \<not> Failed t \<and> readyPoRep e t h) ?tasks)"
    by auto
  have p2: "poll e s1 = Done (None, s2)"
    using l nf by (simp add: poll_def Select_tasks_def)
  have "map (\<lambda>t. (pollerPoRep, SpID t, SectorNumber t))
             (filter (\<lambda>t. \<not> Failed t \<and> readyPoRep e t h) ?tasks)
      = map (\<lambda>r. (pollerPoRep, sp_id r, sector_number r))
             (filter (\<lambda>r. after_commit_msg_success r \<noteq> True \<and> \<not> failed r
                         \<and> readyPoRep e (scan_pollTask r) h) (table s1))"
    by (simp add: filter_map o_def conj_commute conj_left_commute)
       (simp add: scan_pollTask_def)
  with a p2 have "\<exists>s2. poll e s1 = Done (None, s2)
       \<and> attempts s2 = attempts s1 @
           map (\<lambda>r. (pollerPoRep, sp_id r, sector_number r))
             (filter (\<lambda>r. after_commit_msg_success r \<noteq> True \<and> \<not> failed r
                         \<and> readyPoRep e (scan_pollTask r) h) (table s1))"
    by simp
  with len all show ?thesis by blast
qed

theorem second_tick_claims_only_new_porep_witness:
  "poll (landed_env 1000) (start [submitted_row 1 1, new_row 1 2])
     = Done (None, (start [(submitted_row 1 1)\<lparr>seed_epoch := Some 250, precommit_msg_tsk := Some ''tsk'',
          after_precommit_msg_success := True\<rparr>, (new_row 1 2)\<lparr>task_id_sdr := Some 1\<rparr>])
        \<lparr>db_ops := 4, head_reads := 2, next_id := 2, added := [(1, pollerSDR)],
          attempts := [(pollerSDR, 1, 2)]\<rparr>)
   \<and> (\<exists>s2. poll (landed_env 1000) ((start [(submitted_row 1 1)\<lparr>seed_epoch := Some 250,
          precommit_msg_tsk := Some ''tsk'', after_precommit_msg_success := True\<rparr>,
          (new_row 1 2)\<lparr>task_id_sdr := Some 1\<rparr>])
        \<lparr>db_ops := 4, head_reads := 2, next_id := 2, added := [(1, pollerSDR)],
          attempts := [(pollerSDR, 1, 2)]\<rparr>) = Done (None, s2)
       \<and> attempts s2 = [(pollerSDR, 1, 2), (pollerPoRep, 1, 1)])"
proof -
  let ?e = "landed_env 1000"
  let ?s = "start [submitted_row 1 1, new_row 1 2]"
  let ?s1 = "(start [(submitted_row 1 1)\<lparr>seed_epoch := Some 250, precommit_msg_tsk := Some ''tsk'',
          after_precommit_msg_success := True\<rparr>, (new_row 1 2)\<lparr>task_id_sdr := Some 1\<rparr>])
        \<lparr>db_ops := 4, head_reads := 2, next_id := 2, added := [(1, pollerSDR)],
          attempts := [(pollerSDR, 1, 2)]\<rparr>"
  have nf: "\<forall>n. db_fault ?e n = None" and hd: "\<forall>n. ChainHead ?e n = Inr 1000"
    by (simp_all add: example_defs)
  have d: "distinct (map key (table ?s))"
    by (simp add: example_defs key_def)
  have p: "poll ?e ?s = Done (None, ?s1)"
    by (simp add: poller_defs example_defs)
  have f: "map (\<lambda>r. (pollerPoRep, sp_id r, sector_number r))
             (filter (\<lambda>r. after_commit_msg_success r \<noteq> True \<and> \<not> failed r
                         \<and> readyPoRep ?e (scan_pollTask r) 1000) (table ?s1)) = [(pollerPoRep, 1, 1)]"
    by (simp add: poller_defs example_defs)
  from second_tick_claims_only_new_porep [OF nf hd d p]
  have "\<exists>s2. poll ?e ?s1 = Done (None, s2)
       \<and> attempts s2 = attempts ?s1 @
           map (\<lambda>r. (pollerPoRep, sp_id r, sector_number r))
             (filter (\<lambda>r. after_commit_msg_success r \<noteq> True \<and> \<not> failed r
                         \<and> readyPoRep ?e (scan_pollTask r) 1000) (table ?s1))"
    by (rule conjunct1)
  then have "\<exists>s2. poll ?e ?s1 = Done (None, s2) \<and> attempts s2 = [(pollerSDR, 1, 2), (pollerPoRep, 1, 1)]"
    unfolding f by simp
  with p show ?thesis by blast
qed

section \<open>The spread assigner: what a pass does\<close>

subsection \<open>The scan of the acceptable windows of one task\<close>

lemma scan_windows_append:
  "scan_windows x sh wins wa task (xs @ ys) p =
     (case scan_windows x sh wins wa task xs p of
        Inl err \<Rightarrow> Inl err
      | Inr p' \<Rightarrow> scan_windows x sh wins wa task ys p')"
  by (induction xs arbitrary: p) (auto simp: Let_def split: sum.splits option.splits)

lemma scan_windows_one:
  assumes "scan_windows x sh wins wa task [w] p = Inr p'"
  shows "0 \<le> w" and "w < int (length (OpenWindows sh))" and "w < int (length wins)"
    and "p' = (if admits x sh wins task (info p) w \<and> assigned wa (owner sh w) < bestAssigned p
               then \<lparr> selectedWindow = w, info = Info (the (Workers sh (owner sh w))),
                      bestWid = owner sh w, bestAssigned = assigned wa (owner sh w) \<rparr>
               else p)"
  using assms
  by (auto simp: index_def Let_def owner_def admits_def split: if_splits option.splits)


subsection \<open>The pass over the queue\<close>

lemma scan_windows_valid:
  "scan_windows x sh wins wa task cands p0 = Inr p \<Longrightarrow>
     p = p0 \<or> (0 \<le> selectedWindow p \<and> selectedWindow p < int (length (OpenWindows sh))
               \<and> selectedWindow p < int (length wins) \<and> bestWid p = owner sh (selectedWindow p))"
proof (induction cands arbitrary: p0)
  case Nil
  then show ?case by simp
next
  case (Cons w cands)
  from Cons.prems have "scan_windows x sh wins wa task ([w] @ cands) p0 = Inr p" by simp
  then obtain q where one: "scan_windows x sh wins wa task [w] p0 = Inr q"
    and rest: "scan_windows x sh wins wa task cands q = Inr p"
    unfolding scan_windows_append by (auto split: sum.splits)
  note o = scan_windows_one [OF one]
  from Cons.IH [OF rest] show ?case
  proof
    assume "p = q"
    with o show ?thesis by (auto split: if_splits)
  next
    assume "0 \<le> selectedWindow p \<and> selectedWindow p < int (length (OpenWindows sh))
               \<and> selectedWindow p < int (length wins) \<and> bestWid p = owner sh (selectedWindow p)"
    then show ?thesis by simp
  qed
qed

lemma spread_task_cases:
  assumes "spread_task x sh aw sqi st = Inr st'"
  obtains cands p where "sqi < length (SchedQueue sh)"
    "index aw (IndexHeap (SchedQueue sh ! sqi)) = Inr cands"
    "scan_windows x sh (windows st) (workerAssigned st) (SchedQueue sh ! sqi) cands (no_pick x) = Inr p"
    "(selectedWindow p < 0 \<and> st' = st)
     \<or> (0 \<le> selectedWindow p \<and> nat (selectedWindow p) < length (windows st)
        \<and> nat (selectedWindow p) < length (OpenWindows sh)
        \<and> st' = place sh sqi (nat (selectedWindow p)) st)"
proof -
  from assms have sq: "sqi < length (SchedQueue sh)"
    by (auto simp: spread_task_def index_def split: if_splits)
  then have task: "index (SchedQueue sh) (int sqi) = Inr (SchedQueue sh ! sqi)"
    by (simp add: index_def)
  let ?task = "SchedQueue sh ! sqi"
  from assms task obtain cands where c: "index aw (IndexHeap ?task) = Inr cands"
    by (auto simp: spread_task_def split: sum.splits)
  from assms task c obtain p where
    p: "scan_windows x sh (windows st) (workerAssigned st) ?task cands (no_pick x) = Inr p"
    by (auto simp: spread_task_def split: sum.splits)
  have "(selectedWindow p < 0 \<and> st' = st)
     \<or> (0 \<le> selectedWindow p \<and> nat (selectedWindow p) < length (windows st)
        \<and> nat (selectedWindow p) < length (OpenWindows sh)
        \<and> st' = place sh sqi (nat (selectedWindow p)) st)"
  proof (cases "selectedWindow p < 0")
    case True
    with assms task c p show ?thesis by (simp add: spread_task_def)
  next
    case False
    with scan_windows_valid [OF p]
    have v: "0 \<le> selectedWindow p" "selectedWindow p < int (length (OpenWindows sh))"
      "selectedWindow p < int (length (windows st))" "bestWid p = owner sh (selectedWindow p)"
      by (auto simp: no_pick_def)
    then have w: "index (windows st) (selectedWindow p) = Inr (windows st ! nat (selectedWindow p))"
      by (simp add: index_def)
    have "st' = place sh sqi (nat (selectedWindow p)) st"
      using assms task c p False w v by (simp add: spread_task_def place_def)
    with v show ?thesis by auto
  qed
  with sq c p show ?thesis by (rule that)
qed

lemma assigned_upd:
  "assigned (wa(k \<mapsto> v)) wid = (if wid = k then v else assigned wa wid)"
  by (simp add: assigned_def)

lemma placements_place:
  assumes pl: "placements sh wins st pl" and sq: "sqi < length (SchedQueue sh)"
    and w: "w < length wins" "w < length (OpenWindows sh)"
  shows "placements sh wins (place sh sqi w st) (pl @ [(sqi, w)])"
proof -
  from pl have len: "length (windows st) = length wins" by (simp add: placements_def)
  have win: "windows (place sh sqi w st) ! w' =
      (wins ! w')\<lparr>Todo := Todo (wins ! w') @
         map (\<lambda>(i, w'). SchedQueue sh ! i) (filter (\<lambda>(i, w''). w'' = w') (pl @ [(sqi, w)]))\<rparr>"
    if "w' < length wins" for w'
  proof -
    from pl that have old: "windows st ! w' =
      (wins ! w')\<lparr>Todo := Todo (wins ! w') @ map (\<lambda>(i, w'). SchedQueue sh ! i) (filter (\<lambda>(i, w''). w'' = w') pl)\<rparr>"
      by (simp add: placements_def)
    show ?thesis
    proof (cases "w' = w")
      case True
      with old len w show ?thesis by (simp add: place_def)
    next
      case False
      with old len that show ?thesis by (simp add: place_def)
    qed
  qed
  have cnt: "assigned (workerAssigned (place sh sqi w st)) wid
      = int (length (filter (\<lambda>(i, w). owner sh (int w) = wid) (pl @ [(sqi, w)])))" for wid
    using pl by (simp add: placements_def place_def assigned_upd)
  show ?thesis
    unfolding placements_def
  proof (intro conjI allI impI)
    show "rmQueue (place sh sqi w st) = map fst (pl @ [(sqi, w)])"
      using pl by (simp add: placements_def place_def)
    show "scheduled (place sh sqi w st) = int (length (pl @ [(sqi, w)]))"
      using pl by (simp add: placements_def place_def)
    show "length (windows (place sh sqi w st)) = length wins"
      using len by (simp add: place_def)
    show "\<forall>(i, w) \<in> set (pl @ [(sqi, w)]).
        i < length (SchedQueue sh) \<and> w < length wins \<and> w < length (OpenWindows sh)"
      using pl sq w by (auto simp: placements_def)
  next
    fix w' assume "w' < length wins"
    then show "windows (place sh sqi w st) ! w' =
      (wins ! w')\<lparr>Todo := Todo (wins ! w') @
         map (\<lambda>(i, w'). SchedQueue sh ! i) (filter (\<lambda>(i, w''). w'' = w') (pl @ [(sqi, w)]))\<rparr>"
      by (rule win)
  next
    fix wid
    show "assigned (workerAssigned (place sh sqi w st)) wid
      = int (length (filter (\<lambda>(i, w). owner sh (int w) = wid) (pl @ [(sqi, w)])))"
      by (rule cnt)
  qed
qed

lemma placements_start: "placements sh wins (start_pass wins) []"
  by (simp add: placements_def start_pass_def assigned_def)

lemma spread_loop_placements:
  "spread_loop x sh aw queueLen sqi st = Inr st' \<Longrightarrow> placements sh wins st pl \<Longrightarrow>
   length pl \<le> sqi \<Longrightarrow> sorted_wrt (<) (map fst pl) \<Longrightarrow> (\<forall>i \<in> set (map fst pl). i < sqi) \<Longrightarrow>
     \<exists>pl'. placements sh wins st' pl' \<and> sorted_wrt (<) (map fst pl')
       \<and> (\<forall>i \<in> set (map fst pl'). i \<in> set (map fst pl) \<or> int i < queueLen)"
proof (induction x sh aw queueLen sqi st arbitrary: pl rule: spread_loop.induct)
  case (1 x sh aw queueLen sqi st)
  show ?case
  proof (cases "int sqi < queueLen")
    case False
    with "1.prems" show ?thesis by (auto simp: spread_loop.simps)
  next
    case True
    with "1.prems"(1) obtain st1 where t: "spread_task x sh aw sqi st = Inr st1"
      and l: "spread_loop x sh aw queueLen (Suc sqi) st1 = Inr st'"
      by (auto simp: spread_loop.simps [of x sh aw queueLen sqi] split: sum.splits)
    from t show ?thesis
    proof (cases rule: spread_task_cases)
      case (1 cands p)
      from 1(4) show ?thesis
      proof
        assume "selectedWindow p < 0 \<and> st1 = st"
        then have st1: "st1 = st" by simp
        have p1: "placements sh wins st1 pl" using "1.prems"(2) st1 by simp
        have l1: "length pl \<le> Suc sqi" using "1.prems"(3) by simp
        have b1: "\<forall>i \<in> set (map fst pl). i < Suc sqi" using "1.prems"(5) by auto
        from "1.IH" [OF True t l p1 l1 "1.prems"(4) b1] show ?thesis .
      next
        assume a: "0 \<le> selectedWindow p \<and> nat (selectedWindow p) < length (windows st)
          \<and> nat (selectedWindow p) < length (OpenWindows sh)
          \<and> st1 = place sh sqi (nat (selectedWindow p)) st"
        let ?w = "nat (selectedWindow p)"
        from "1.prems"(2) have len: "length (windows st) = length wins" by (simp add: placements_def)
        have p1: "placements sh wins st1 (pl @ [(sqi, ?w)])"
          using a placements_place [OF "1.prems"(2) 1(1), of ?w] len by simp
        have s1: "sorted_wrt (<) (map fst (pl @ [(sqi, ?w)]))"
          using "1.prems"(4,5) by (auto simp: sorted_wrt_append)
        have b1: "\<forall>i \<in> set (map fst (pl @ [(sqi, ?w)])). i < Suc sqi"
          using "1.prems"(5) by auto
        have l1: "length (pl @ [(sqi, ?w)]) \<le> Suc sqi" using "1.prems"(3) by simp
        from "1.IH" [OF True t l p1 l1 s1 b1] obtain pl' where
          "placements sh wins st' pl'" "sorted_wrt (<) (map fst pl')"
          "\<forall>i \<in> set (map fst pl'). i \<in> set (map fst (pl @ [(sqi, ?w)])) \<or> int i < queueLen"
          by blast
        with True show ?thesis by (intro exI [of _ pl']) auto
      qed
    qed
  qed
qed

lemma nths_eqI:
  assumes "\<And>i. i < length xs \<Longrightarrow> i \<in> A \<longleftrightarrow> i \<in> B"
  shows "nths xs A = nths xs B"
proof -
  have "filter (\<lambda>p. snd p \<in> A) (zip xs [0..<length xs]) = filter (\<lambda>p. snd p \<in> B) (zip xs [0..<length xs])"
    using assms by (intro filter_cong) (auto simp: in_set_zip)
  then show ?thesis by (simp add: nths_def)
qed

lemma nths_remove_last:
  assumes k: "k < length q" and small: "\<forall>i \<in> set rm. i < k"
  shows "nths (take k q @ drop (Suc k) q) {i. i \<notin> set rm} = nths q {i. i \<notin> set (rm @ [k])}"
proof -
  let ?A = "{i. i \<notin> set rm}"
  have tail: "{j. j + k \<in> ?A} = UNIV" using small by auto
  have a: "nths (take k q @ drop (Suc k) q) ?A = nths (take k q) ?A @ drop (Suc k) q"
    using k tail by (simp add: nths_append min_def nths_all)
  have q: "q = take k q @ q ! k # drop (Suc k) q" using k by (rule id_take_nth_drop)
  let ?B = "{i. i \<notin> set (rm @ [k])}"
  have tailB: "{j. j + k \<in> ?B} = {j. j \<noteq> 0}" using small by auto
  have suc: "{j. Suc j \<in> {j. j \<noteq> 0}} = UNIV" by auto
  have "nths q ?B = nths (take k q @ q ! k # drop (Suc k) q) ?B" using q by simp
  also have "\<dots> = nths (take k q) ?B @ nths (q ! k # drop (Suc k) q) {j. j \<noteq> 0}"
    using k tailB by (simp add: nths_append min_def)
  also have "nths (q ! k # drop (Suc k) q) {j. j \<noteq> 0} = drop (Suc k) q"
    by (simp add: nths_Cons nths_all)
  also have "nths (take k q) ?B = nths (take k q) ?A"
    using k by (intro nths_eqI) auto
  finally show ?thesis using a by simp
qed

lemma remove_all_sorted:
  "sorted_wrt (<) rm \<Longrightarrow> (\<forall>i \<in> set rm. i < length q) \<Longrightarrow>
     remove_all q (rev rm) = Inr (nths q {i. i \<notin> set rm})"
proof (induction rm arbitrary: q rule: rev_induct)
  case Nil
  then show ?case by (simp add: nths_all)
next
  case (snoc k rm)
  from snoc.prems have k: "k < length q" and small: "\<forall>i \<in> set rm. i < k"
    and srt: "sorted_wrt (<) rm"
    by (auto simp: sorted_wrt_append)
  let ?q' = "take k q @ drop (Suc k) q"
  have r: "Remove q k = Inr ?q'" using k by (simp add: Remove_def)
  have "\<forall>i \<in> set rm. i < length ?q'" using small k by auto
  from snoc.IH [OF srt this] r nths_remove_last [OF k small]
  show ?case by simp
qed



lemmas assigner_defs = SpreadWS_def spread_loop.simps spread_task_def index_def no_pick_def
  start_pass_def assigned_def MaxInt_def Remove_def

lemmas assigner_example_defs = room_iface_def mem_iface_def seal_task_def three_tasks_def
  empty_windows_def one_task_def

subsection \<open>The choice of the window\<close>



subsection \<open>The admission test\<close>

text \<open>
  Claim C7 (not met by the code). For each task only its acceptable windows are scanned,
  and a candidate window is rejected exactly when the window's admission test cannot
  accommodate the task's resource request, the request derived from the resource
  information of the candidate's worker. The scan derives the request from its variable
  \<open>info\<close>, and passes \<open>info\<close> to the admission test, instead of the info of the candidate's
  worker; \<open>info\<close> holds the zero value until a window is selected. With one task, one
  acceptable window with nothing allocated, owned by a worker with memory 10, and an
  admission test that compares the request with the memory of the info given: the test
  admits the task with the info of the window's worker, and rejects it with the zero info;
  the pass schedules nothing and leaves the task in the queue.
\<close>

theorem spread_rejects_on_scan_info:
  "SpreadWS mem_iface one_task 1 [[0]] (empty_windows 1) = Inr (0, one_task, empty_windows 1)
   \<and> Workers one_task (owner one_task 0) = Some \<lparr> Info = 10 \<rparr>
   \<and> admits mem_iface one_task (empty_windows 1) (seal_task 1 0) 10 0
   \<and> \<not> admits mem_iface one_task (empty_windows 1) (seal_task 1 0) (zeroWorkerInfo mem_iface) 0
   \<and> \<not> feasible_at mem_iface one_task (empty_windows 1) Map.empty (seal_task 1 0) [0] 0"
  by (simp add: assigner_defs assigner_example_defs admits_def owner_def feasible_at_def)

subsection \<open>The queue and the windows after a pass\<close>

text \<open>
  Claim C8. After the pass has scanned all tasks, there are placements, each of a queue
  index below \<open>queueLen\<close> with a window, in increasing order of the queue index, such that:
  exactly the placed tasks are removed from the queue and the remaining tasks keep their
  order (the queue is the old one restricted to the indices that are not placed); every
  placed task is appended to the pending list of its window, and nothing else of the
  windows changes; the counter of every worker at the end of the pass is the number of
  tasks placed in its windows; and the value returned is the number of placements.
\<close>

theorem spread_pass_removes_placed:
  assumes "SpreadWS x sh queueLen aw wins = Inr (n, sh', wins')"
  shows "\<exists>pl wa.
        sorted_wrt (<) (map fst pl) \<and> (\<forall>i \<in> set (map fst pl). int i < queueLen)
      \<and> spread_loop x sh aw queueLen 0 (start_pass wins)
          = Inr \<lparr> scheduled = n, rmQueue = map fst pl, workerAssigned = wa, windows = wins' \<rparr>
      \<and> placements sh wins \<lparr> scheduled = n, rmQueue = map fst pl, workerAssigned = wa, windows = wins' \<rparr> pl
      \<and> n = int (length pl)
      \<and> sh' = sh\<lparr>SchedQueue := nths (SchedQueue sh) {i. i \<notin> set (map fst pl)}\<rparr>"
proof -
  from assms obtain st q where loop: "spread_loop x sh aw queueLen 0 (start_pass wins) = Inr st"
    and rm: "remove_all (SchedQueue sh) (rev (rmQueue st)) = Inr q"
    and res: "n = scheduled st" "sh' = sh\<lparr>SchedQueue := q\<rparr>" "wins' = windows st"
    by (auto simp: SpreadWS_def split: if_splits sum.splits)
  from spread_loop_placements [OF loop placements_start [of sh wins]]
  obtain pl where pl: "placements sh wins st pl" and srt: "sorted_wrt (<) (map fst pl)"
    and below: "\<forall>i \<in> set (map fst pl). int i < queueLen"
    by auto
  have rq: "rmQueue st = map fst pl" and n: "n = int (length pl)"
    using pl res by (simp_all add: placements_def)
  have inq: "\<forall>i \<in> set (map fst pl). i < length (SchedQueue sh)"
    using pl by (auto simp: placements_def)
  from remove_all_sorted [OF srt inq] rm rq
  have q: "q = nths (SchedQueue sh) {i. i \<notin> set (map fst pl)}" by simp
  have st: "st = \<lparr> scheduled = n, rmQueue = map fst pl, workerAssigned = workerAssigned st, windows = wins' \<rparr>"
    using res rq by simp
  show ?thesis
    apply (rule exI [of _ pl])
    apply (rule exI [of _ "workerAssigned st"])
    using srt below loop pl n q res(2) st by simp
qed

theorem spread_pass_removes_placed_witness:
  "SpreadWS (room_iface 5) three_tasks 3 [[0, 1, 2], [], [0, 1, 2]] (empty_windows 3)
     = Inr (2, three_tasks\<lparr>SchedQueue := [seal_task 2 1]\<rparr>,
            [\<lparr> Allocated = 0, Todo = [seal_task 1 0] \<rparr>, \<lparr> Allocated = 0, Todo = [] \<rparr>,
             \<lparr> Allocated = 0, Todo = [seal_task 3 2] \<rparr>])
   \<and> (\<exists>pl wa.
        sorted_wrt (<) (map fst pl) \<and> (\<forall>i \<in> set (map fst pl). int i < 3)
      \<and> spread_loop (room_iface 5) three_tasks [[0, 1, 2], [], [0, 1, 2]] 3 0 (start_pass (empty_windows 3))
          = Inr \<lparr> scheduled = 2, rmQueue = map fst pl, workerAssigned = wa,
                 windows = [\<lparr> Allocated = 0, Todo = [seal_task 1 0] \<rparr>, \<lparr> Allocated = 0, Todo = [] \<rparr>,
                            \<lparr> Allocated = 0, Todo = [seal_task 3 2] \<rparr>] \<rparr>
      \<and> placements three_tasks (empty_windows 3)
            \<lparr> scheduled = 2, rmQueue = map fst pl, workerAssigned = wa,
              windows = [\<lparr> Allocated = 0, Todo = [seal_task 1 0] \<rparr>, \<lparr> Allocated = 0, Todo = [] \<rparr>,
                         \<lparr> Allocated = 0, Todo = [seal_task 3 2] \<rparr>] \<rparr> pl
      \<and> (2 :: int) = int (length pl)
      \<and> three_tasks\<lparr>SchedQueue := [seal_task 2 1]\<rparr>
          = three_tasks\<lparr>SchedQueue := nths (SchedQueue three_tasks) {i. i \<notin> set (map fst pl)}\<rparr>)"
proof -
  have ev: "SpreadWS (room_iface 5) three_tasks 3 [[0, 1, 2], [], [0, 1, 2]] (empty_windows 3)
     = Inr (2, three_tasks\<lparr>SchedQueue := [seal_task 2 1]\<rparr>,
            [\<lparr> Allocated = 0, Todo = [seal_task 1 0] \<rparr>, \<lparr> Allocated = 0, Todo = [] \<rparr>,
             \<lparr> Allocated = 0, Todo = [seal_task 3 2] \<rparr>])"
    by (simp add: assigner_defs assigner_example_defs numeral_3_eq_3)
  from spread_pass_removes_placed [OF ev] ev show ?thesis
    by blast
qed

end
